theory Spec2Isabelle
  imports Main
begin

section \<open>Python values\<close>

text \<open>
  A Python \<open>str\<close> is a sequence of Unicode code points, modelled as a list of
  natural numbers. ASCII literals of the source are written \<open>U ''...''\<close>; the pictographs
  of the human-readable messages are given by their code points.
\<close>

type_synonym pystr = "nat list"

abbreviation (input) U :: "string \<Rightarrow> pystr" where
  "U s \<equiv> map of_char s"

text \<open>
  A decoded hypervisor response: \<open>None\<close>, \<open>bool\<close>, \<open>int\<close>, \<open>str\<close>,
  \<open>list\<close> and \<open>dict\<close> with \<open>str\<close> keys in insertion order. Floating-point numbers
  are not part of the model.
\<close>

datatype json =
    JNull
  | JBool bool
  | JInt int
  | JStr pystr
  | JList "json list"
  | JObj "(pystr \<times> json) list"

datatype exc_class = ValueError | KeyError | TypeError | AttributeError | OtherError pystr

datatype py_exception = Exc (exc_cls: exc_class) (exc_msg: pystr)

section \<open>The hypervisor client facade\<close>

text \<open>
  The tools reach the hypervisor through the fluent client object \<open>self.proxmox\<close>: attribute
  accesses and calls with arguments build a resource path, and \<open>get\<close>, \<open>post\<close>,
  \<open>put\<close>, \<open>delete\<close> perform the request with keyword parameters (\<open>create\<close> is the
  client's alias of \<open>post\<close>). A request is recorded as the verb, the path segments in the
  order the source builds them, and the keyword parameters. The client answers with a decoded
  value or raises; its answer may depend on every request made before.
\<close>

datatype verb = GET | POST | PUT | DELETE

datatype seg = Attr pystr | Arg json

datatype call = Call (call_verb: verb) (call_path: "seg list") (call_params: "(pystr \<times> json) list")

type_synonym facade = "call list \<Rightarrow> call \<Rightarrow> py_exception + json"

text \<open>
  What a tool object is given and what the Python runtime supplies: the client, the error
  helper \<open>_handle_error\<close> of the tool base class (it returns \<open>Some e\<close> when it raises
  \<open>e\<close> and \<open>None\<close> when it returns), what \<open>getattr\<close> on a client resource
  does with a name chosen at run time (\<open>None\<close> when the name is a sub-resource, so that
  the path is extended by it, and \<open>Some e\<close> when looking it up, or looking up
  \<open>post\<close> on what it names, raises \<open>e\<close>), \<open>repr()\<close> of a decoded list or
  dictionary, the Unicode case mappings \<open>str.upper\<close> and \<open>str.lower\<close>, the
  rendering of \<open>memory/1024\<close> with format \<open>.1f\<close>, and whether a string matches a
  declared \<open>Field\<close> pattern.
\<close>

record tool_env =
  proxmox :: facade
  handle_error :: "pystr \<Rightarrow> py_exception \<Rightarrow> py_exception option"
  resolve_attr :: "pystr \<Rightarrow> py_exception option"
  py_repr :: "json \<Rightarrow> pystr"
  py_upper :: "pystr \<Rightarrow> pystr"
  py_lower :: "pystr \<Rightarrow> pystr"
  fmt_1f :: "int \<Rightarrow> pystr"
  pattern_match :: "pystr \<Rightarrow> pystr \<Rightarrow> bool"

datatype content = TextContent (content_text: pystr)

text \<open>
  How a call of a tool ends: it returns a list of content blocks, it returns \<open>None\<close>, it
  raises, or the tool framework refuses the arguments before the registered function runs
  (with the names of the parameters that violate their declared constraint).
\<close>

datatype outcome =
    Returned "content list"
  | ReturnedNone
  | Raised py_exception
  | ArgumentsRejected "pystr list"

definition request ::
  "tool_env \<Rightarrow> verb \<Rightarrow> seg list \<Rightarrow> (pystr \<times> json) list \<Rightarrow> call list
    \<Rightarrow> (py_exception + json) \<times> call list" where
  "request env v p kw tr = (proxmox env tr (Call v p kw), tr @ [Call v p kw])"

text \<open>\<open>except Exception as e: self._handle_error(op, e)\<close> as the last statement of a tool.\<close>

definition handled :: "tool_env \<Rightarrow> pystr \<Rightarrow> py_exception \<Rightarrow> outcome" where
  "handled env opname e = (case handle_error env opname e of Some x \<Rightarrow> Raised x | None \<Rightarrow> ReturnedNone)"

section \<open>String and dictionary primitives\<close>

fun startswith :: "pystr \<Rightarrow> pystr \<Rightarrow> bool" where
  "startswith s [] = True"
| "startswith [] (p # ps) = False"
| "startswith (c # cs) (p # ps) = (c = p \<and> startswith cs ps)"

text \<open>\<open>sub in s\<close> for two strings.\<close>

fun str_contains :: "pystr \<Rightarrow> pystr \<Rightarrow> bool" where
  "str_contains [] sub = (sub = [])"
| "str_contains (c # cs) sub = (startswith (c # cs) sub \<or> str_contains cs sub)"

text \<open>\<open>d[k] = v\<close> on a dictionary kept in insertion order.\<close>

fun dict_set :: "pystr \<Rightarrow> json \<Rightarrow> (pystr \<times> json) list \<Rightarrow> (pystr \<times> json) list" where
  "dict_set k v [] = [(k, v)]"
| "dict_set k v ((k', v') # d) = (if k' = k then (k', v) # d else (k', v') # dict_set k v d)"

text \<open>\<open>{**a, **b}\<close> and \<open>a.update(b)\<close>.\<close>

definition dict_merge :: "(pystr \<times> json) list \<Rightarrow> (pystr \<times> json) list \<Rightarrow> (pystr \<times> json) list" where
  "dict_merge a b = foldl (\<lambda>d kv. dict_set (fst kv) (snd kv) d) a b"

text \<open>\<open>x or {}\<close> for an optional dictionary.\<close>

definition or_empty :: "(pystr \<times> json) list option \<Rightarrow> (pystr \<times> json) list" where
  "or_empty x = (case x of None \<Rightarrow> [] | Some d \<Rightarrow> d)"

section \<open>JSON serialisation\<close>

text \<open>
  \<open>json.dumps\<close> with its default arguments: separators \<open>", "\<close> and \<open>": "\<close>, and
  \<open>ensure_ascii\<close>, so that every code point outside the printable ASCII range is written
  as a \<open>\u\<close> escape (a surrogate pair above the basic plane).
\<close>

fun dec_nat :: "nat \<Rightarrow> pystr" where
  "dec_nat n = (if n < 10 then [48 + n] else dec_nat (n div 10) @ [48 + n mod 10])"

declare dec_nat.simps [simp del]

definition dec_int :: "int \<Rightarrow> pystr" where
  "dec_int i = (if i < 0 then 45 # dec_nat (nat (- i)) else dec_nat (nat i))"

definition hexdigit :: "nat \<Rightarrow> nat" where
  "hexdigit d = (if d < 10 then 48 + d else 87 + d)"

definition hex4 :: "nat \<Rightarrow> pystr" where
  "hex4 n = [hexdigit (n div 4096 mod 16), hexdigit (n div 256 mod 16),
             hexdigit (n div 16 mod 16), hexdigit (n mod 16)]"

definition u_escape :: "nat \<Rightarrow> pystr" where
  "u_escape n = 92 # 117 # hex4 n"

definition escape_char :: "nat \<Rightarrow> pystr" where
  "escape_char c =
    (if c = 34 then [92, 34]
     else if c = 92 then [92, 92]
     else if c = 10 then [92, 110]
     else if c = 13 then [92, 114]
     else if c = 9 then [92, 116]
     else if c = 12 then [92, 102]
     else if c = 8 then [92, 98]
     else if 32 \<le> c \<and> c \<le> 126 then [c]
     else if c < 65536 then u_escape c
     else u_escape (55296 + ((c - 65536) div 1024) mod 1024) @ u_escape (56320 + (c - 65536) mod 1024))"

definition dumps_str :: "pystr \<Rightarrow> pystr" where
  "dumps_str s = 34 # concat (map escape_char s) @ [34]"

fun json_dumps :: "json \<Rightarrow> pystr"
  and dumps_list :: "json list \<Rightarrow> pystr"
  and dumps_members :: "(pystr \<times> json) list \<Rightarrow> pystr" where
  "json_dumps JNull = U ''null''"
| "json_dumps (JBool b) = (if b then U ''true'' else U ''false'')"
| "json_dumps (JInt i) = dec_int i"
| "json_dumps (JStr s) = dumps_str s"
| "json_dumps (JList xs) = 91 # dumps_list xs @ [93]"
| "json_dumps (JObj kvs) = 123 # dumps_members kvs @ [125]"
| "dumps_list [] = []"
| "dumps_list (x # xs) = json_dumps x @ (if xs = [] then [] else U '', '' @ dumps_list xs)"
| "dumps_members [] = []"
| "dumps_members ((k, v) # kvs) =
     dumps_str k @ U '': '' @ json_dumps v @ (if kvs = [] then [] else U '', '' @ dumps_members kvs)"

section \<open>Python primitives on decoded values\<close>

text \<open>
  The operations the tools apply to decoded responses, with the exceptions the interpreter
  raises on a value of the wrong type (message texts as CPython 3.12 prints them; the keys
  looked up by the tools are plain identifiers, whose \<open>repr\<close> is the key in single quotes).
\<close>

definition type_name :: "json \<Rightarrow> pystr" where
  "type_name x = (case x of JNull \<Rightarrow> U ''NoneType'' | JBool b \<Rightarrow> U ''bool'' | JInt i \<Rightarrow> U ''int''
                   | JStr s \<Rightarrow> U ''str'' | JList xs \<Rightarrow> U ''list'' | JObj kvs \<Rightarrow> U ''dict'')"

definition quoted :: "pystr \<Rightarrow> pystr" where
  "quoted s = 39 # s @ [39]"

text \<open>\<open>x.get(k, dflt)\<close>\<close>

definition py_get :: "json \<Rightarrow> pystr \<Rightarrow> json \<Rightarrow> py_exception + json" where
  "py_get x k dflt =
    (case x of
       JObj kvs \<Rightarrow> Inr (case map_of kvs k of Some v \<Rightarrow> v | None \<Rightarrow> dflt)
     | _ \<Rightarrow> Inl (Exc AttributeError
                (quoted (type_name x) @ U '' object has no attribute '' @ quoted (U ''get''))))"

text \<open>\<open>x[k]\<close> for a string key \<open>k\<close>\<close>

definition py_getitem :: "json \<Rightarrow> pystr \<Rightarrow> py_exception + json" where
  "py_getitem x k =
    (case x of
       JObj kvs \<Rightarrow> (case map_of kvs k of Some v \<Rightarrow> Inr v | None \<Rightarrow> Inl (Exc KeyError (quoted k)))
     | JList xs \<Rightarrow> Inl (Exc TypeError (U ''list indices must be integers or slices, not str''))
     | JStr s \<Rightarrow> Inl (Exc TypeError (U ''string indices must be integers, not '' @ quoted (U ''str'')))
     | _ \<Rightarrow> Inl (Exc TypeError (quoted (type_name x) @ U '' object is not subscriptable'')))"

text \<open>\<open>for item in x\<close>\<close>

definition py_iter :: "json \<Rightarrow> py_exception + json list" where
  "py_iter x =
    (case x of
       JList xs \<Rightarrow> Inr xs
     | JObj kvs \<Rightarrow> Inr (map (\<lambda>kv. JStr (fst kv)) kvs)
     | JStr s \<Rightarrow> Inr (map (\<lambda>c. JStr [c]) s)
     | _ \<Rightarrow> Inl (Exc TypeError (quoted (type_name x) @ U '' object is not iterable'')))"

text \<open>\<open>sub in x\<close> for a string \<open>sub\<close>\<close>

definition py_in :: "pystr \<Rightarrow> json \<Rightarrow> py_exception + bool" where
  "py_in sub x =
    (case x of
       JStr s \<Rightarrow> Inr (str_contains s sub)
     | JList xs \<Rightarrow> Inr (JStr sub \<in> set xs)
     | JObj kvs \<Rightarrow> Inr (sub \<in> set (map fst kvs))
     | _ \<Rightarrow> Inl (Exc TypeError (U ''argument of type '' @ quoted (type_name x) @ U '' is not iterable'')))"

text \<open>\<open>str(x)\<close>, as an f-string formats a value.\<close>

definition str_of :: "tool_env \<Rightarrow> json \<Rightarrow> pystr" where
  "str_of env x =
    (case x of
       JStr s \<Rightarrow> s
     | JInt i \<Rightarrow> dec_int i
     | JBool b \<Rightarrow> (if b then U ''True'' else U ''False'')
     | JNull \<Rightarrow> U ''None''
     | _ \<Rightarrow> py_repr env x)"

text \<open>\<open>"does not exist" in str(e).lower() or "not found" in str(e).lower()\<close>\<close>

definition says_not_found :: "tool_env \<Rightarrow> py_exception \<Rightarrow> bool" where
  "says_not_found env e =
    (str_contains (py_lower env (exc_msg e)) (U ''does not exist'')
     \<or> str_contains (py_lower env (exc_msg e)) (U ''not found''))"

section \<open>The generic passthrough tool\<close>

text \<open>The two statements of \<open>proxmox_request\<close> under "Normalize path".\<close>

definition normalize_path :: "pystr \<Rightarrow> pystr" where
  "normalize_path path =
    (let norm = dropWhile (\<lambda>c. c = 47) path
     in if startswith norm (U ''api2/json/'') then drop (length (U ''api2/json/'')) norm else norm)"

definition proxmox_request ::
  "tool_env \<Rightarrow> pystr \<Rightarrow> pystr \<Rightarrow> (pystr \<times> json) list option \<Rightarrow> (pystr \<times> json) list option
    \<Rightarrow> call list \<Rightarrow> outcome \<times> call list" where
  "proxmox_request env method path params data tr =
    (let opname = U ''generic request '' @ method @ U '' '' @ path in
     if path = [] then (handled env opname (Exc ValueError (U ''path must be a non-empty string'')), tr)
     else
       let norm = normalize_path path;
           method_upper = py_upper env method;
           params' = or_empty params;
           data' = or_empty data;
           write_payload = dict_merge params' data';
           finish = (\<lambda>(r, tr'). case r of
                        Inl e \<Rightarrow> (handled env opname e, tr')
                      | Inr result \<Rightarrow> (Returned [TextContent (json_dumps result)], tr'))
       in if method_upper = U ''GET'' then finish (request env GET [Arg (JStr norm)] params' tr)
          else if method_upper = U ''POST'' then finish (request env POST [Arg (JStr norm)] write_payload tr)
          else if method_upper = U ''PUT'' then finish (request env PUT [Arg (JStr norm)] write_payload tr)
          else if method_upper = U ''DELETE'' then finish (request env DELETE [Arg (JStr norm)] params' tr)
          else (handled env opname (Exc ValueError (U ''Unsupported method. Use GET, POST, PUT or DELETE'')), tr))"

text \<open>
  The normalisation in the words of the specification: strip every leading slash, then one
  leading API-version prefix \<open>api2/json/\<close> if there is one.
\<close>

fun strip_leading_slashes :: "pystr \<Rightarrow> pystr" where
  "strip_leading_slashes [] = []"
| "strip_leading_slashes (c # cs) = (if c = 47 then strip_leading_slashes cs else c # cs)"

fun strip_prefix :: "pystr \<Rightarrow> pystr \<Rightarrow> pystr option" where
  "strip_prefix [] s = Some s"
| "strip_prefix (p # ps) [] = None"
| "strip_prefix (p # ps) (c # cs) = (if p = c then strip_prefix ps cs else None)"

definition spec_normalize :: "pystr \<Rightarrow> pystr" where
  "spec_normalize path =
    (let q = strip_leading_slashes path
     in case strip_prefix (U ''api2/json/'') q of Some r \<Rightarrow> r | None \<Rightarrow> q)"

section \<open>VM tools\<close>

definition qemu_path :: "pystr \<Rightarrow> pystr \<Rightarrow> seg list" where
  "qemu_path node vmid = [Attr (U ''nodes''), Arg (JStr node), Attr (U ''qemu''), Arg (JStr vmid)]"

text \<open>
  \<open>VMTools.delete_vm\<close>. The inner \<open>try\<close> reads the power state; its handler turns a
  "not found" failure into a \<open>ValueError\<close> and re-raises anything else. Every exception
  leaving the body meets the outer handlers: a \<open>ValueError\<close> is re-raised unchanged,
  any other exception goes to \<open>_handle_error\<close>.
\<close>

definition delete_vm ::
  "tool_env \<Rightarrow> pystr \<Rightarrow> pystr \<Rightarrow> bool \<Rightarrow> call list \<Rightarrow> outcome \<times> call list" where
  "delete_vm env node vmid force tr =
    (let opname = U ''delete VM '' @ vmid;
         outer = (\<lambda>e. if exc_cls e = ValueError then Raised e else handled env opname e);
         inner = (\<lambda>e. if says_not_found env e
                       then Exc ValueError (U ''VM '' @ vmid @ U '' not found on node '' @ node)
                       else e);
         delete_step = (\<lambda>vm_name result_text tr'.
           case request env DELETE (qemu_path node vmid) [] tr' of
             (Inl e, tr'') \<Rightarrow> (outer e, tr'')
           | (Inr task_result, tr'') \<Rightarrow>
               (Returned [TextContent (result_text @
      [128465, 65039] @ U '' VM '' @ vmid @ U '' ('' @ str_of env vm_name @
      U '') deletion initiated successfully!'' @ [10, 10, 9888, 65039] @
      U '' WARNING: This operation will permanently remove:'' @ [10] @ U ''  '' @ [8226] @
      U '' VM configuration'' @ [10] @ U ''  '' @ [8226] @ U '' All virtual disks'' @ [10] @
      U ''  '' @ [8226] @ U '' All snapshots'' @ [10] @ U ''  '' @ [8226] @
      U '' Cannot be undone!'' @ [10, 10, 128295] @ U '' Task ID: '' @ str_of env task_result @
      [10, 10, 9989] @ U '' VM '' @ vmid @ U '' ('' @ str_of env vm_name @
      U '') is being deleted from node '' @ node)], tr''))
     in case request env GET (qemu_path node vmid @ [Attr (U ''status''), Attr (U ''current'')]) [] tr of
          (Inl e, tr1) \<Rightarrow> (outer (inner e), tr1)
        | (Inr vm_status, tr1) \<Rightarrow>
           (case py_get vm_status (U ''status'') JNull of
              Inl e \<Rightarrow> (outer (inner e), tr1)
            | Inr current_status \<Rightarrow>
               (case py_get vm_status (U ''name'') (JStr (U ''VM-'' @ vmid)) of
                  Inl e \<Rightarrow> (outer (inner e), tr1)
                | Inr vm_name \<Rightarrow>
                   if current_status = JStr (U ''running'') then
                     if \<not> force then
                       (outer (Exc ValueError
                          (U ''VM '' @ vmid @ U '' ('' @ str_of env vm_name @
                           U '') is currently running. '' @
                           U ''Please stop it first or use force=True to stop and delete.'')), tr1)
                     else
                       (case request env POST (qemu_path node vmid @ [Attr (U ''status''), Attr (U ''stop'')]) [] tr1 of
                          (Inl e, tr2) \<Rightarrow> (outer e, tr2)
                        | (Inr stopped, tr2) \<Rightarrow>
                            delete_step vm_name
                              ([128721] @ U '' Stopping VM '' @ vmid @ U '' ('' @ str_of env vm_name @
                               U '') before deletion...'' @ [10]) tr2)
                   else
                     delete_step vm_name
                       ([128465, 65039] @ U '' Deleting VM '' @ vmid @ U '' ('' @ str_of env vm_name @
                        U '')...'' @ [10]) tr1)))"

text \<open>
  \<open>VMTools.reset_vm\<close>. One handler covers the whole body: a "not found" failure becomes a
  \<open>ValueError\<close>, anything else goes to \<open>_handle_error\<close>.
\<close>

definition reset_vm :: "tool_env \<Rightarrow> pystr \<Rightarrow> pystr \<Rightarrow> call list \<Rightarrow> outcome \<times> call list" where
  "reset_vm env node vmid tr =
    (let except = (\<lambda>e. if says_not_found env e
                        then Raised (Exc ValueError (U ''VM '' @ vmid @ U '' not found on node '' @ node))
                        else handled env (U ''reset VM '' @ vmid) e)
     in case request env GET (qemu_path node vmid @ [Attr (U ''status''), Attr (U ''current'')]) [] tr of
          (Inl e, tr1) \<Rightarrow> (except e, tr1)
        | (Inr vm_status, tr1) \<Rightarrow>
           (case py_get vm_status (U ''status'') JNull of
              Inl e \<Rightarrow> (except e, tr1)
            | Inr current_status \<Rightarrow>
               if current_status = JStr (U ''stopped'') then
                 (Returned [TextContent
                    ([9888, 65039] @ U '' Cannot reset VM '' @ vmid @ U '': VM is currently stopped'' @ [10] @
                     U ''Use start_vm to start it first'')], tr1)
               else
                 (case request env POST (qemu_path node vmid @ [Attr (U ''status''), Attr (U ''reset'')]) [] tr1 of
                    (Inl e, tr2) \<Rightarrow> (except e, tr2)
                  | (Inr task_result, tr2) \<Rightarrow>
                      (Returned [TextContent
                         ([128260] @ U '' VM '' @ vmid @ U '' reset initiated successfully'' @ [10] @
                          U ''Task ID: '' @ str_of env task_result)], tr2))))"

text \<open>
  \<open>VMTools.get_vms\<close>: the inner loop over the machines of one node, the outer loop over
  the nodes, and the tool itself.
\<close>

fun vm_entries :: "json \<Rightarrow> json list \<Rightarrow> py_exception + json list" where
  "vm_entries node_name [] = Inr []"
| "vm_entries node_name (vm # vms) =
    (case py_getitem vm (U ''vmid'') of Inl e \<Rightarrow> Inl e | Inr vmid \<Rightarrow>
    (case py_get vm (U ''name'') JNull of Inl e \<Rightarrow> Inl e | Inr name \<Rightarrow>
    (case py_get vm (U ''status'') JNull of Inl e \<Rightarrow> Inl e | Inr status \<Rightarrow>
    (case py_get vm (U ''mem'') JNull of Inl e \<Rightarrow> Inl e | Inr mem \<Rightarrow>
    (case py_get vm (U ''maxmem'') JNull of Inl e \<Rightarrow> Inl e | Inr maxmem \<Rightarrow>
    (case vm_entries node_name vms of Inl e \<Rightarrow> Inl e | Inr rest \<Rightarrow>
       Inr (JObj [(U ''vmid'', vmid), (U ''name'', name), (U ''status'', status),
                  (U ''node'', node_name), (U ''cpus'', JNull), (U ''mem'', mem),
                  (U ''maxmem'', maxmem)] # rest)))))))"

fun nodes_loop :: "tool_env \<Rightarrow> json list \<Rightarrow> call list \<Rightarrow> (py_exception + json list) \<times> call list" where
  "nodes_loop env [] tr = (Inr [], tr)"
| "nodes_loop env (node # nodes) tr =
    (case py_getitem node (U ''node'') of Inl e \<Rightarrow> (Inl e, tr) | Inr node_name \<Rightarrow>
    (case request env GET [Attr (U ''nodes''), Arg node_name, Attr (U ''qemu'')] [] tr of
       (Inl e, tr1) \<Rightarrow> (Inl e, tr1)
     | (Inr vms, tr1) \<Rightarrow>
        (case py_iter vms of Inl e \<Rightarrow> (Inl e, tr1) | Inr vml \<Rightarrow>
        (case vm_entries node_name vml of Inl e \<Rightarrow> (Inl e, tr1) | Inr entries \<Rightarrow>
        (case nodes_loop env nodes tr1 of
           (Inl e, tr2) \<Rightarrow> (Inl e, tr2)
         | (Inr rest, tr2) \<Rightarrow> (Inr (entries @ rest), tr2))))))"

definition get_vms :: "tool_env \<Rightarrow> call list \<Rightarrow> outcome \<times> call list" where
  "get_vms env tr =
    (case request env GET [Attr (U ''nodes'')] [] tr of
       (Inl e, tr1) \<Rightarrow> (handled env (U ''get VMs'') e, tr1)
     | (Inr ns, tr1) \<Rightarrow>
        (case py_iter ns of Inl e \<Rightarrow> (handled env (U ''get VMs'') e, tr1) | Inr nodes \<Rightarrow>
        (case nodes_loop env nodes tr1 of
           (Inl e, tr2) \<Rightarrow> (handled env (U ''get VMs'') e, tr2)
         | (Inr result, tr2) \<Rightarrow> (Returned [TextContent (json_dumps (JList result))], tr2))))"

text \<open>
  The body shared by the tools that answer with JSON inside \<open>try ... except Exception as e:
  self._handle_error(op, e)\<close>: one request, then either \<open>json.dumps({"task": result})\<close>
  or \<open>json.dumps(result)\<close>.
\<close>

definition task_json :: "tool_env \<Rightarrow> pystr \<Rightarrow> (py_exception + json) \<times> call list \<Rightarrow> outcome \<times> call list" where
  "task_json env opname r =
    (case r of
       (Inl e, tr1) \<Rightarrow> (handled env opname e, tr1)
     | (Inr result, tr1) \<Rightarrow> (Returned [TextContent (json_dumps (JObj [(U ''task'', result)]))], tr1))"

definition raw_json :: "tool_env \<Rightarrow> pystr \<Rightarrow> (py_exception + json) \<times> call list \<Rightarrow> outcome \<times> call list" where
  "raw_json env opname r =
    (case r of
       (Inl e, tr1) \<Rightarrow> (handled env opname e, tr1)
     | (Inr result, tr1) \<Rightarrow> (Returned [TextContent (json_dumps result)], tr1))"

text \<open>\<open>int(bool(b))\<close>\<close>

definition int_of_bool :: "bool \<Rightarrow> json" where
  "int_of_bool b = JInt (if b then 1 else 0)"

text \<open>\<open>if x is not None: payload[k] = f(x)\<close>\<close>

definition set_if_given :: "pystr \<Rightarrow> ('a \<Rightarrow> json) \<Rightarrow> 'a option \<Rightarrow> (pystr \<times> json) list \<Rightarrow> (pystr \<times> json) list" where
  "set_if_given k f x payload = (case x of None \<Rightarrow> payload | Some y \<Rightarrow> dict_set k (f y) payload)"

definition get_vm_status :: "tool_env \<Rightarrow> pystr \<Rightarrow> pystr \<Rightarrow> call list \<Rightarrow> outcome \<times> call list" where
  "get_vm_status env node vmid tr =
    raw_json env (U ''get VM '' @ vmid @ U '' status on node '' @ node)
      (request env GET (qemu_path node vmid @ [Attr (U ''status''), Attr (U ''current'')]) [] tr)"

definition get_vm_snapshots :: "tool_env \<Rightarrow> pystr \<Rightarrow> pystr \<Rightarrow> call list \<Rightarrow> outcome \<times> call list" where
  "get_vm_snapshots env node vmid tr =
    raw_json env (U ''get VM '' @ vmid @ U '' snapshots on node '' @ node)
      (request env GET (qemu_path node vmid @ [Attr (U ''snapshot'')]) [] tr)"

definition create_vm_snapshot ::
  "tool_env \<Rightarrow> pystr \<Rightarrow> pystr \<Rightarrow> pystr \<Rightarrow> bool option \<Rightarrow> pystr option \<Rightarrow> call list
    \<Rightarrow> outcome \<times> call list" where
  "create_vm_snapshot env node vmid snapname vmstate description tr =
    (let payload = [(U ''snapname'', JStr snapname)];
         payload = set_if_given (U ''vmstate'') int_of_bool vmstate payload;
         payload = set_if_given (U ''description'') JStr description payload
     in task_json env (U ''create snapshot for VM '' @ vmid @ U '' on node '' @ node)
          (request env POST (qemu_path node vmid @ [Attr (U ''snapshot'')]) payload tr))"

definition delete_vm_snapshot :: "tool_env \<Rightarrow> pystr \<Rightarrow> pystr \<Rightarrow> pystr \<Rightarrow> call list \<Rightarrow> outcome \<times> call list" where
  "delete_vm_snapshot env node vmid snapname tr =
    task_json env (U ''delete snapshot '' @ snapname @ U '' for VM '' @ vmid @ U '' on node '' @ node)
      (request env DELETE (qemu_path node vmid @ [Attr (U ''snapshot''), Arg (JStr snapname)]) [] tr)"

definition rollback_vm_snapshot :: "tool_env \<Rightarrow> pystr \<Rightarrow> pystr \<Rightarrow> pystr \<Rightarrow> call list \<Rightarrow> outcome \<times> call list" where
  "rollback_vm_snapshot env node vmid snapname tr =
    task_json env (U ''rollback snapshot '' @ snapname @ U '' for VM '' @ vmid @ U '' on node '' @ node)
      (request env POST
         (qemu_path node vmid @ [Attr (U ''snapshot''), Arg (JStr snapname), Attr (U ''rollback'')]) [] tr)"

definition clone_vm ::
  "tool_env \<Rightarrow> pystr \<Rightarrow> pystr \<Rightarrow> pystr option \<Rightarrow> pystr option \<Rightarrow> pystr option \<Rightarrow> bool option
    \<Rightarrow> pystr option \<Rightarrow> call list \<Rightarrow> outcome \<times> call list" where
  "clone_vm env node vmid target newid name full storage tr =
    (let payload = [];
         payload = set_if_given (U ''target'') JStr target payload;
         payload = set_if_given (U ''newid'') JStr newid payload;
         payload = set_if_given (U ''name'') JStr name payload;
         payload = set_if_given (U ''full'') int_of_bool full payload;
         payload = set_if_given (U ''storage'') JStr storage payload
     in task_json env (U ''clone VM '' @ vmid @ U '' on node '' @ node)
          (request env POST (qemu_path node vmid @ [Attr (U ''clone'')]) payload tr))"

definition migrate_vm ::
  "tool_env \<Rightarrow> pystr \<Rightarrow> pystr \<Rightarrow> pystr \<Rightarrow> bool option \<Rightarrow> call list \<Rightarrow> outcome \<times> call list" where
  "migrate_vm env node vmid target online tr =
    (let payload = [(U ''target'', JStr target)];
         payload = set_if_given (U ''online'') int_of_bool online payload
     in task_json env (U ''migrate VM '' @ vmid @ U '' from node '' @ node @ U '' to '' @ target)
          (request env POST (qemu_path node vmid @ [Attr (U ''migrate'')]) payload tr))"

definition update_vm_config ::
  "tool_env \<Rightarrow> pystr \<Rightarrow> pystr \<Rightarrow> (pystr \<times> json) list option \<Rightarrow> call list \<Rightarrow> outcome \<times> call list" where
  "update_vm_config env node vmid changes tr =
    task_json env (U ''update VM '' @ vmid @ U '' config on node '' @ node)
      (request env POST (qemu_path node vmid @ [Attr (U ''config'')]) (or_empty changes) tr)"

definition resize_vm_disk ::
  "tool_env \<Rightarrow> pystr \<Rightarrow> pystr \<Rightarrow> pystr \<Rightarrow> pystr \<Rightarrow> call list \<Rightarrow> outcome \<times> call list" where
  "resize_vm_disk env node vmid disk size' tr =
    task_json env (U ''resize disk '' @ disk @ U '' for VM '' @ vmid @ U '' on node '' @ node)
      (request env POST (qemu_path node vmid @ [Attr (U ''resize'')])
         [(U ''disk'', JStr disk), (U ''size'', JStr size')] tr)"

section \<open>Storage, access and node administration tools\<close>

definition get_storage :: "tool_env \<Rightarrow> call list \<Rightarrow> outcome \<times> call list" where
  "get_storage env tr = raw_json env (U ''get storage'') (request env GET [Attr (U ''storage'')] [] tr)"

definition delete_storage_content ::
  "tool_env \<Rightarrow> pystr \<Rightarrow> pystr \<Rightarrow> pystr \<Rightarrow> call list \<Rightarrow> outcome \<times> call list" where
  "delete_storage_content env node storage volume tr =
    raw_json env (U ''delete storage content '' @ volume @ U '' on '' @ storage @ U ''@'' @ node)
      (request env DELETE
         [Attr (U ''nodes''), Arg (JStr node), Attr (U ''storage''), Arg (JStr storage),
          Attr (U ''content''), Arg (JStr volume)] [] tr)"

text \<open>The access and administration tools have no handler: what the client raises propagates.\<close>

definition raw_json_unhandled :: "(py_exception + json) \<times> call list \<Rightarrow> outcome \<times> call list" where
  "raw_json_unhandled r =
    (case r of
       (Inl e, tr1) \<Rightarrow> (Raised e, tr1)
     | (Inr result, tr1) \<Rightarrow> (Returned [TextContent (json_dumps result)], tr1))"

definition list_users :: "tool_env \<Rightarrow> call list \<Rightarrow> outcome \<times> call list" where
  "list_users env tr = raw_json_unhandled (request env GET [Attr (U ''access''), Attr (U ''users'')] [] tr)"

definition create_user ::
  "tool_env \<Rightarrow> pystr \<Rightarrow> pystr option \<Rightarrow> pystr option \<Rightarrow> int option \<Rightarrow> bool option \<Rightarrow> call list
    \<Rightarrow> outcome \<times> call list" where
  "create_user env user password comment expire enable tr =
    (let payload = [(U ''userid'', JStr user)];
         payload = set_if_given (U ''password'') JStr password payload;
         payload = set_if_given (U ''comment'') JStr comment payload;
         payload = set_if_given (U ''expire'') JInt expire payload;
         payload = set_if_given (U ''enable'') int_of_bool enable payload
     in raw_json_unhandled (request env POST [Attr (U ''access''), Attr (U ''users'')] payload tr))"

text \<open>
  \<open>AdminTools.service_action\<close>: \<open>getattr\<close> picks the sub-resource named by the action
  string, and \<open>post\<close> is called on it.
\<close>

definition service_action ::
  "tool_env \<Rightarrow> pystr \<Rightarrow> pystr \<Rightarrow> pystr \<Rightarrow> call list \<Rightarrow> outcome \<times> call list" where
  "service_action env node service action tr =
    (case resolve_attr env action of
       Some e \<Rightarrow> (Raised e, tr)
     | None \<Rightarrow>
        (case request env POST
                [Attr (U ''nodes''), Arg (JStr node), Attr (U ''services''), Arg (JStr service), Attr action]
                [] tr of
           (Inl e, tr1) \<Rightarrow> (Raised e, tr1)
         | (Inr result, tr1) \<Rightarrow> (Returned [TextContent (json_dumps (JObj [(U ''task'', result)]))], tr1)))"

section \<open>VM creation\<close>

text \<open>
  \<open>storage_info\<close> is a dictionary keyed by the storage identifiers: a list or a dictionary
  is not hashable, and \<open>True\<close>/\<open>1\<close> and \<open>False\<close>/\<open>0\<close> are the same key.
\<close>

definition hashable :: "json \<Rightarrow> bool" where
  "hashable x = (case x of JList xs \<Rightarrow> False | JObj kvs \<Rightarrow> False | _ \<Rightarrow> True)"

definition key_eq :: "json \<Rightarrow> json \<Rightarrow> bool" where
  "key_eq a b =
    (a = b \<or>
     (case (a, b) of
        (JBool x, JInt i) \<Rightarrow> i = (if x then 1 else 0)
      | (JInt i, JBool x) \<Rightarrow> i = (if x then 1 else 0)
      | _ \<Rightarrow> False))"

fun info_set :: "json \<Rightarrow> json \<Rightarrow> (json \<times> json) list \<Rightarrow> (json \<times> json) list" where
  "info_set k v [] = [(k, v)]"
| "info_set k v ((k', v') # d) = (if key_eq k' k then (k', v) # d else (k', v') # info_set k v d)"

fun info_get :: "(json \<times> json) list \<Rightarrow> json \<Rightarrow> json option" where
  "info_get [] k = None"
| "info_get ((k', v') # d) k = (if key_eq k' k then Some v' else info_get d k)"

text \<open>\<open>for s in storage_list: storage_info[s["storage"]] = s\<close>\<close>

fun build_storage_info :: "json list \<Rightarrow> (json \<times> json) list \<Rightarrow> py_exception + (json \<times> json) list" where
  "build_storage_info [] info = Inr info"
| "build_storage_info (s # ss) info =
    (case py_getitem s (U ''storage'') of
       Inl e \<Rightarrow> Inl e
     | Inr k \<Rightarrow>
        if hashable k then build_storage_info ss (info_set k s info)
        else Inl (Exc TypeError (U ''unhashable type: '' @ quoted (type_name k))))"

text \<open>\<open>"images" in s.get("content", "")\<close>\<close>

definition supports_images :: "json \<Rightarrow> py_exception + bool" where
  "supports_images s =
    (case py_get s (U ''content'') (JStr []) of Inl e \<Rightarrow> Inl e | Inr c \<Rightarrow> py_in (U ''images'') c)"

text \<open>
  The three loops of the storage auto-detection. Each leaves \<open>storage\<close> at \<open>None\<close>
  (\<open>JNull\<close>) when it finds nothing.
\<close>

fun find_named :: "pystr \<Rightarrow> json list \<Rightarrow> py_exception + json" where
  "find_named nm [] = Inr JNull"
| "find_named nm (s # ss) =
    (case py_getitem s (U ''storage'') of
       Inl e \<Rightarrow> Inl e
     | Inr k \<Rightarrow>
        if k = JStr nm then
          (case supports_images s of
             Inl e \<Rightarrow> Inl e
           | Inr b \<Rightarrow> if b then Inr k else find_named nm ss)
        else find_named nm ss)"

fun find_any :: "json list \<Rightarrow> py_exception + json" where
  "find_any [] = Inr JNull"
| "find_any (s # ss) =
    (case supports_images s of
       Inl e \<Rightarrow> Inl e
     | Inr b \<Rightarrow> if b then py_getitem s (U ''storage'') else find_any ss)"

definition auto_detect_storage :: "json list \<Rightarrow> py_exception + json" where
  "auto_detect_storage sl =
    (case find_named (U ''local-lvm'') sl of
       Inl e \<Rightarrow> Inl e
     | Inr st1 \<Rightarrow>
        if st1 \<noteq> JNull then Inr st1
        else
          (case find_named (U ''vm-storage'') sl of
             Inl e \<Rightarrow> Inl e
           | Inr st2 \<Rightarrow>
              if st2 \<noteq> JNull then Inr st2
              else
                (case find_any sl of
                   Inl e \<Rightarrow> Inl e
                 | Inr st3 \<Rightarrow>
                    if st3 \<noteq> JNull then Inr st3
                    else Inl (Exc ValueError (U ''No suitable storage found for VM images'')))))"

text \<open>
  From the storage listing to the storage used and its type: the lookup table, the
  auto-detection when no storage was given, and the two validations.
\<close>

definition plan_storage :: "tool_env \<Rightarrow> pystr \<Rightarrow> json \<Rightarrow> json \<Rightarrow> py_exception + json \<times> json" where
  "plan_storage env node storage storage_list =
    (case py_iter storage_list of Inl e \<Rightarrow> Inl e | Inr sl \<Rightarrow>
    (case build_storage_info sl [] of Inl e \<Rightarrow> Inl e | Inr storage_info \<Rightarrow>
    (case (if storage = JNull then auto_detect_storage sl else Inr storage) of Inl e \<Rightarrow> Inl e | Inr st \<Rightarrow>
    (case info_get storage_info st of
       None \<Rightarrow> Inl (Exc ValueError
                  (U ''Storage '' @ [39] @ str_of env st @ [39] @ U '' not found on node '' @ node))
     | Some s \<Rightarrow>
        (case supports_images s of Inl e \<Rightarrow> Inl e | Inr b \<Rightarrow>
           if \<not> b then Inl (Exc ValueError
                  (U ''Storage '' @ [39] @ str_of env st @ [39] @ U '' does not support VM images''))
           else (case py_getitem s (U ''type'') of Inl e \<Rightarrow> Inl e | Inr storage_type \<Rightarrow>
                   Inr (st, storage_type)))))))"

definition is_lvm :: "json \<Rightarrow> bool" where
  "is_lvm storage_type = (storage_type = JStr (U ''lvm'') \<or> storage_type = JStr (U ''lvmthin''))"

definition is_file_based :: "json \<Rightarrow> bool" where
  "is_file_based storage_type =
    (storage_type = JStr (U ''dir'') \<or> storage_type = JStr (U ''nfs'') \<or> storage_type = JStr (U ''cifs''))"

definition disk_format :: "json \<Rightarrow> pystr" where
  "disk_format storage_type =
    (if is_lvm storage_type then U ''raw'' else if is_file_based storage_type then U ''qcow2'' else U ''raw'')"

definition vm_config_storage :: "tool_env \<Rightarrow> json \<Rightarrow> json \<Rightarrow> int \<Rightarrow> (pystr \<times> json) list" where
  "vm_config_storage env storage storage_type disk_size =
    (U ''scsi0'', JStr (str_of env storage @ U '':'' @ dec_int disk_size @ U '',format='' @
                        disk_format storage_type))
    # (if \<not> is_lvm storage_type \<and> is_file_based storage_type
       then [(U ''ide2'', JStr (str_of env storage @ U '':cloudinit''))] else [])"

definition vm_config ::
  "tool_env \<Rightarrow> pystr \<Rightarrow> pystr \<Rightarrow> int \<Rightarrow> int \<Rightarrow> int \<Rightarrow> pystr \<Rightarrow> json \<Rightarrow> json \<Rightarrow> (pystr \<times> json) list" where
  "vm_config env vmid name cpus memory disk_size ostype storage storage_type =
    dict_merge
      [(U ''vmid'', JStr vmid), (U ''name'', JStr name), (U ''cores'', JInt cpus),
       (U ''memory'', JInt memory), (U ''ostype'', JStr ostype),
       (U ''scsihw'', JStr (U ''virtio-scsi-pci'')), (U ''boot'', JStr (U ''order=scsi0'')),
       (U ''agent'', JStr (U ''1'')), (U ''vga'', JStr (U ''std'')),
       (U ''net0'', JStr (U ''virtio,bridge=vmbr0''))]
      (vm_config_storage env storage storage_type disk_size)"

definition create_vm_text ::
  "tool_env \<Rightarrow> pystr \<Rightarrow> pystr \<Rightarrow> pystr \<Rightarrow> int \<Rightarrow> int \<Rightarrow> int \<Rightarrow> pystr \<Rightarrow> json \<Rightarrow> json \<Rightarrow> json \<Rightarrow> pystr" where
  "create_vm_text env node vmid name cpus memory disk_size ostype storage storage_type task_result =
    (let cloudinit_note =
           (if is_lvm storage_type
            then [10] @ U ''  '' @ [9888, 65039] @ U ''  Note: LVM storage doesn'' @ [39] @
                 U ''t support cloud-init image''
            else [])
     in
      [127881] @ U '' VM '' @ vmid @ U '' created successfully!'' @ [10, 10, 128203] @
      U '' VM Configuration:'' @ [10] @ U ''  '' @ [8226] @ U '' Name: '' @ name @ [10] @
      U ''  '' @ [8226] @ U '' Node: '' @ node @ [10] @ U ''  '' @ [8226] @ U '' VM ID: '' @
      vmid @ [10] @ U ''  '' @ [8226] @ U '' CPU Cores: '' @ dec_int cpus @ [10] @ U ''  '' @
      [8226] @ U '' Memory: '' @ dec_int memory @ U '' MB ('' @ fmt_1f env memory @
      U '' GB)'' @ [10] @ U ''  '' @ [8226] @ U '' Disk: '' @ dec_int disk_size @ U '' GB ('' @
      str_of env storage @ U '', '' @ disk_format storage_type @ U '' format)'' @ [10] @ U ''  '' @
      [8226] @ U '' Storage Type: '' @ str_of env storage_type @ [10] @ U ''  '' @ [8226] @
      U '' OS Type: '' @ ostype @ [10] @ U ''  '' @ [8226] @
      U '' Network: virtio (bridge=vmbr0)'' @ [10] @ U ''  '' @ [8226] @
      U '' QEMU Agent: Enabled'' @ cloudinit_note @ [10, 10, 128295] @ U '' Task ID: '' @
      str_of env task_result @ [10, 10, 128161] @ U '' Next steps:'' @ [10] @
      U ''  1. Upload an ISO to install the operating system'' @ [10] @
      U ''  2. Start the VM using start_vm tool'' @ [10] @
      U ''  3. Access the console to complete OS installation'')"

text \<open>
  \<open>VMTools.create_vm\<close>. The existence check is a \<open>try\<close> of its own: when the
  configuration read returns, a \<open>ValueError\<close> "already exists" is raised inside it, and its
  handler lets the flow continue only if the message of what was raised contains
  "does not exist". The outer handlers are those of \<open>delete_vm\<close>.
\<close>

definition create_vm ::
  "tool_env \<Rightarrow> pystr \<Rightarrow> pystr \<Rightarrow> pystr \<Rightarrow> int \<Rightarrow> int \<Rightarrow> int \<Rightarrow> pystr option \<Rightarrow> pystr option
    \<Rightarrow> call list \<Rightarrow> outcome \<times> call list" where
  "create_vm env node vmid name cpus memory disk_size storage ostype tr =
    (let opname = U ''create VM '' @ vmid;
         outer = (\<lambda>e. if exc_cls e = ValueError then Raised e else handled env opname e)
     in case request env GET (qemu_path node vmid @ [Attr (U ''config'')]) [] tr of
          (r0, tr1) \<Rightarrow>
           (let e0 = (case r0 of
                        Inl e \<Rightarrow> e
                      | Inr existing_vm \<Rightarrow>
                          Exc ValueError (U ''VM '' @ vmid @ U '' already exists on node '' @ node))
            in if \<not> str_contains (py_lower env (exc_msg e0)) (U ''does not exist'') then (outer e0, tr1)
               else
                 (case request env GET [Attr (U ''nodes''), Arg (JStr node), Attr (U ''storage'')] [] tr1 of
                    (Inl e, tr2) \<Rightarrow> (outer e, tr2)
                  | (Inr storage_list, tr2) \<Rightarrow>
                     (case plan_storage env node (case storage of None \<Rightarrow> JNull | Some s \<Rightarrow> JStr s)
                             storage_list of
                        Inl e \<Rightarrow> (outer e, tr2)
                      | Inr (st, storage_type) \<Rightarrow>
                         (let ostype' = (case ostype of None \<Rightarrow> U ''l26'' | Some t \<Rightarrow> t) in
                          case request env POST [Attr (U ''nodes''), Arg (JStr node), Attr (U ''qemu'')]
                                 (vm_config env vmid name cpus memory disk_size ostype' st storage_type) tr2 of
                            (Inl e, tr3) \<Rightarrow> (outer e, tr3)
                          | (Inr task_result, tr3) \<Rightarrow>
                              (Returned [TextContent
                                 (create_vm_text env node vmid name cpus memory disk_size ostype' st
                                    storage_type task_result)], tr3))))))"

section \<open>Tool registration\<close>

text \<open>
  \<open>ProxmoxMCPServer._setup_tools\<close> registers each tool with annotated parameters. The
  framework checks the declared \<open>Field\<close> constraints (\<open>ge\<close>, \<open>le\<close>, \<open>Literal\<close>,
  \<open>pattern\<close>) and calls the registered function only when all of them hold.
  \<open>ContainerTools\<close> is given as the two functions the registrations call.
\<close>

definition in_bounds :: "int \<Rightarrow> int \<Rightarrow> int \<Rightarrow> bool" where
  "in_bounds ge le v = (ge \<le> v \<and> v \<le> le)"

definition violations :: "(pystr \<times> bool) list \<Rightarrow> pystr list" where
  "violations checks = map fst (filter (\<lambda>c. \<not> snd c) checks)"

definition registered_create_vm ::
  "tool_env \<Rightarrow> pystr \<Rightarrow> pystr \<Rightarrow> pystr \<Rightarrow> int \<Rightarrow> int \<Rightarrow> int \<Rightarrow> pystr option \<Rightarrow> pystr option
    \<Rightarrow> call list \<Rightarrow> outcome \<times> call list" where
  "registered_create_vm env node vmid name cpus memory disk_size storage ostype tr =
    (let bad = violations [(U ''cpus'', in_bounds 1 32 cpus),
                           (U ''memory'', in_bounds 512 131072 memory),
                           (U ''disk_size'', in_bounds 5 1000 disk_size)]
     in if bad \<noteq> [] then (ArgumentsRejected bad, tr)
        else create_vm env node vmid name cpus memory disk_size storage ostype tr)"

definition registered_stop_container ::
  "(pystr \<Rightarrow> bool \<Rightarrow> int \<Rightarrow> pystr \<Rightarrow> call list \<Rightarrow> outcome \<times> call list)
    \<Rightarrow> pystr \<Rightarrow> bool \<Rightarrow> int \<Rightarrow> pystr \<Rightarrow> call list \<Rightarrow> outcome \<times> call list" where
  "registered_stop_container stop_container selector graceful timeout_seconds format_style tr =
    (let bad = violations [(U ''timeout_seconds'', in_bounds 1 600 timeout_seconds),
                           (U ''format_style'', format_style = U ''pretty'' \<or> format_style = U ''json'')]
     in if bad \<noteq> [] then (ArgumentsRejected bad, tr)
        else stop_container selector graceful timeout_seconds format_style tr)"

definition registered_restart_container ::
  "tool_env \<Rightarrow> (pystr \<Rightarrow> int \<Rightarrow> pystr \<Rightarrow> call list \<Rightarrow> outcome \<times> call list)
    \<Rightarrow> pystr \<Rightarrow> int \<Rightarrow> pystr \<Rightarrow> call list \<Rightarrow> outcome \<times> call list" where
  "registered_restart_container env restart_container selector timeout_seconds format_style tr =
    (let bad = violations [(U ''timeout_seconds'', in_bounds 1 600 timeout_seconds),
                           (U ''format_style'', pattern_match env (U ''^(pretty|json)$'') format_style)]
     in if bad \<noteq> [] then (ArgumentsRejected bad, tr)
        else restart_container selector timeout_seconds format_style tr)"

section \<open>JSON decoding\<close>

text \<open>
  \<open>json.loads\<close> on the grammar without fractional numbers: white space, the literals,
  integers, strings with their escapes (a \<open>\u\<close> escape of a high surrogate directly
  followed by one of a low surrogate is one code point; a raw control character is refused),
  arrays and objects (a repeated key keeps its first position and its last value). A number
  with a fraction or an exponent, \<open>NaN\<close> and \<open>Infinity\<close> are floating point and
  give \<open>None\<close>, as every malformed text does. The recursion carries fuel; every step
  consumes a character, so the length of the text is enough.
\<close>

definition is_ws :: "nat \<Rightarrow> bool" where
  "is_ws c = (c = 32 \<or> c = 9 \<or> c = 10 \<or> c = 13)"

definition skip_ws :: "pystr \<Rightarrow> pystr" where
  "skip_ws s = dropWhile is_ws s"

definition hexval :: "nat \<Rightarrow> nat option" where
  "hexval c =
    (if 48 \<le> c \<and> c \<le> 57 then Some (c - 48)
     else if 97 \<le> c \<and> c \<le> 102 then Some (c - 87)
     else if 65 \<le> c \<and> c \<le> 70 then Some (c - 55)
     else None)"

definition parse_hex4 :: "pystr \<Rightarrow> (nat \<times> pystr) option" where
  "parse_hex4 s =
    (case s of
       a # b # c # d # rest \<Rightarrow>
         (case (hexval a, hexval b, hexval c, hexval d) of
            (Some x, Some y, Some z, Some w) \<Rightarrow> Some (((x * 16 + y) * 16 + z) * 16 + w, rest)
          | _ \<Rightarrow> None)
     | _ \<Rightarrow> None)"

definition is_high_surrogate :: "nat \<Rightarrow> bool" where
  "is_high_surrogate c = (55296 \<le> c \<and> c \<le> 56319)"

definition is_low_surrogate :: "nat \<Rightarrow> bool" where
  "is_low_surrogate c = (56320 \<le> c \<and> c \<le> 57343)"

text \<open>
  Whether the text goes on with a \<open>\\u\<close> escape that the decoder would join to a high
  surrogate before it, or refuse.
\<close>

definition low_escape_follows :: "pystr \<Rightarrow> bool" where
  "low_escape_follows rest =
    (startswith rest [92, 117] \<and>
     (case parse_hex4 (drop 2 rest) of Some (u2, r2) \<Rightarrow> is_low_surrogate u2 | None \<Rightarrow> True))"

definition scan_unicode_escape :: "pystr \<Rightarrow> (nat \<times> pystr) option" where
  "scan_unicode_escape s =
    (case parse_hex4 s of
       None \<Rightarrow> None
     | Some (uni, rest) \<Rightarrow>
        if is_high_surrogate uni \<and> startswith rest [92, 117] then
          (case parse_hex4 (drop 2 rest) of
             None \<Rightarrow> None
           | Some (uni2, rest2) \<Rightarrow>
              if is_low_surrogate uni2
              then Some (65536 + ((uni - 55296) * 1024 + (uni2 - 56320)), rest2)
              else Some (uni, rest))
        else Some (uni, rest))"

definition unescape :: "nat \<Rightarrow> nat option" where
  "unescape e =
    (if e = 34 then Some 34
     else if e = 92 then Some 92
     else if e = 47 then Some 47
     else if e = 98 then Some 8
     else if e = 102 then Some 12
     else if e = 110 then Some 10
     else if e = 114 then Some 13
     else if e = 116 then Some 9
     else None)"

definition next_char :: "pystr \<Rightarrow> (nat option \<times> pystr) option" where
  "next_char s =
    (case s of
       [] \<Rightarrow> None
     | c # cs \<Rightarrow>
        if c = 34 then Some (None, cs)
        else if c = 92 then
          (case cs of
             [] \<Rightarrow> None
           | e # cs' \<Rightarrow>
              if e = 117 then
                (case scan_unicode_escape cs' of None \<Rightarrow> None | Some (u, rest) \<Rightarrow> Some (Some u, rest))
              else (case unescape e of None \<Rightarrow> None | Some d \<Rightarrow> Some (Some d, cs')))
        else if c < 32 then None
        else Some (Some c, cs))"

fun scan_string :: "nat \<Rightarrow> pystr \<Rightarrow> (pystr \<times> pystr) option" where
  "scan_string 0 s = None"
| "scan_string (Suc n) s =
    (case next_char s of
       None \<Rightarrow> None
     | Some (None, rest) \<Rightarrow> Some ([], rest)
     | Some (Some c, rest) \<Rightarrow>
        (case scan_string n rest of None \<Rightarrow> None | Some (cs, r) \<Rightarrow> Some (c # cs, r)))"

definition is_digit :: "nat \<Rightarrow> bool" where
  "is_digit c = (48 \<le> c \<and> c \<le> 57)"

definition digits_val :: "pystr \<Rightarrow> nat" where
  "digits_val ds = foldl (\<lambda>a c. a * 10 + (c - 48)) 0 ds"

definition parse_int_part :: "pystr \<Rightarrow> (nat \<times> pystr) option" where
  "parse_int_part s =
    (case s of
       [] \<Rightarrow> None
     | c # cs \<Rightarrow>
        if c = 48 then Some (0, cs)
        else if is_digit c then Some (digits_val (takeWhile is_digit s), dropWhile is_digit s)
        else None)"

definition parse_number :: "pystr \<Rightarrow> (json \<times> pystr) option" where
  "parse_number s =
    (let neg = startswith s [45] in
     case parse_int_part (if neg then drop 1 s else s) of
       None \<Rightarrow> None
     | Some (n, rest) \<Rightarrow>
        if startswith rest [46] \<or> startswith rest [101] \<or> startswith rest [69] then None
        else Some (JInt (if neg then - int n else int n), rest))"

definition dict_of_pairs :: "(pystr \<times> json) list \<Rightarrow> (pystr \<times> json) list" where
  "dict_of_pairs pairs = dict_merge [] pairs"

fun parse_value :: "nat \<Rightarrow> pystr \<Rightarrow> (json \<times> pystr) option"
  and parse_elems :: "nat \<Rightarrow> pystr \<Rightarrow> (json list \<times> pystr) option"
  and parse_members :: "nat \<Rightarrow> pystr \<Rightarrow> ((pystr \<times> json) list \<times> pystr) option" where
  "parse_value 0 s = None"
| "parse_value (Suc n) s =
    (if startswith s [34] then
       (case scan_string (length s) (drop 1 s) of None \<Rightarrow> None | Some (str, r) \<Rightarrow> Some (JStr str, r))
     else if startswith s [123] then
       (if startswith (skip_ws (drop 1 s)) [125] then Some (JObj [], drop 1 (skip_ws (drop 1 s)))
        else (case parse_members n (skip_ws (drop 1 s)) of
                None \<Rightarrow> None
              | Some (pairs, r) \<Rightarrow> Some (JObj (dict_of_pairs pairs), r)))
     else if startswith s [91] then
       (if startswith (skip_ws (drop 1 s)) [93] then Some (JList [], drop 1 (skip_ws (drop 1 s)))
        else (case parse_elems n (skip_ws (drop 1 s)) of
                None \<Rightarrow> None
              | Some (vs, r) \<Rightarrow> Some (JList vs, r)))
     else if startswith s (U ''null'') then Some (JNull, drop 4 s)
     else if startswith s (U ''true'') then Some (JBool True, drop 4 s)
     else if startswith s (U ''false'') then Some (JBool False, drop 5 s)
     else parse_number s)"
| "parse_elems 0 s = None"
| "parse_elems (Suc n) s =
    (case parse_value n s of
       None \<Rightarrow> None
     | Some (v, r) \<Rightarrow>
        (if startswith (skip_ws r) [93] then Some ([v], drop 1 (skip_ws r))
         else if startswith (skip_ws r) [44] then
           (case parse_elems n (skip_ws (drop 1 (skip_ws r))) of
              None \<Rightarrow> None
            | Some (vs, r') \<Rightarrow> Some (v # vs, r'))
         else None))"
| "parse_members 0 s = None"
| "parse_members (Suc n) s =
    (if \<not> startswith s [34] then None
     else
      (case scan_string (length s) (drop 1 s) of
         None \<Rightarrow> None
       | Some (key, r) \<Rightarrow>
          (if \<not> startswith (skip_ws r) [58] then None
           else
            (case parse_value n (skip_ws (drop 1 (skip_ws r))) of
               None \<Rightarrow> None
             | Some (v, r') \<Rightarrow>
                (if startswith (skip_ws r') [125] then Some ([(key, v)], drop 1 (skip_ws r'))
                 else if startswith (skip_ws r') [44] then
                   (case parse_members n (skip_ws (drop 1 (skip_ws r'))) of
                      None \<Rightarrow> None
                    | Some (pairs, r'') \<Rightarrow> Some ((key, v) # pairs, r''))
                 else None)))))"

definition json_loads :: "pystr \<Rightarrow> json option" where
  "json_loads s =
    (case parse_value (Suc (length s)) (skip_ws s) of
       None \<Rightarrow> None
     | Some (v, r) \<Rightarrow> if skip_ws r = [] then Some v else None)"

section \<open>Vocabulary of the properties\<close>

text \<open>A write is any request that is not a \<open>GET\<close>; \<open>issued tr tr'\<close> are the requests added to \<open>tr\<close>.\<close>

definition is_write :: "call \<Rightarrow> bool" where
  "is_write c = (call_verb c \<noteq> GET)"

definition issued :: "call list \<Rightarrow> call list \<Rightarrow> call list" where
  "issued tr tr' = drop (length tr) tr'"

definition status_call :: "pystr \<Rightarrow> pystr \<Rightarrow> call" where
  "status_call node vmid = Call GET (qemu_path node vmid @ [Attr (U ''status''), Attr (U ''current'')]) []"

definition stop_call :: "pystr \<Rightarrow> pystr \<Rightarrow> call" where
  "stop_call node vmid = Call POST (qemu_path node vmid @ [Attr (U ''status''), Attr (U ''stop'')]) []"

definition delete_call :: "pystr \<Rightarrow> pystr \<Rightarrow> call" where
  "delete_call node vmid = Call DELETE (qemu_path node vmid) []"

definition config_call :: "pystr \<Rightarrow> pystr \<Rightarrow> call" where
  "config_call node vmid = Call GET (qemu_path node vmid @ [Attr (U ''config'')]) []"

definition storage_list_call :: "pystr \<Rightarrow> call" where
  "storage_list_call node = Call GET [Attr (U ''nodes''), Arg (JStr node), Attr (U ''storage'')] []"

definition nodes_call :: call where
  "nodes_call = Call GET [Attr (U ''nodes'')] []"

definition qemu_listing_call :: "json \<Rightarrow> call" where
  "qemu_listing_call node_name = Call GET [Attr (U ''nodes''), Arg node_name, Attr (U ''qemu'')] []"

text \<open>The paths of the node enumeration and of the per-node listing, and no other.\<close>

fun is_listing_path :: "seg list \<Rightarrow> bool" where
  "is_listing_path [Attr a] = (a = U ''nodes'')"
| "is_listing_path [Attr a, Arg n, Attr b] = (a = U ''nodes'' \<and> b = U ''qemu'')"
| "is_listing_path p = False"

definition is_listing_call :: "call \<Rightarrow> bool" where
  "is_listing_call c = (call_verb c = GET \<and> is_listing_path (call_path c))"

definition has_null_cpus :: "json \<Rightarrow> bool" where
  "has_null_cpus x = (case x of JObj kvs \<Rightarrow> map_of kvs (U ''cpus'') = Some JNull | _ \<Rightarrow> False)"

definition has_key :: "pystr \<Rightarrow> json \<Rightarrow> bool" where
  "has_key k x = (case x of JObj kvs \<Rightarrow> map_of kvs k \<noteq> None | _ \<Rightarrow> False)"

definition field :: "json \<Rightarrow> pystr \<Rightarrow> json" where
  "field x k = (case x of JObj kvs \<Rightarrow> (case map_of kvs k of Some v \<Rightarrow> v | None \<Rightarrow> JNull) | _ \<Rightarrow> JNull)"

text \<open>
  The entry of a machine made from what the per-node listing says about it and from the
  name of its node, with nothing else.
\<close>

definition coarse_entry :: "json \<Rightarrow> json \<Rightarrow> json" where
  "coarse_entry node_name vm =
     JObj [(U ''vmid'', field vm (U ''vmid'')), (U ''name'', field vm (U ''name'')),
           (U ''status'', field vm (U ''status'')), (U ''node'', node_name), (U ''cpus'', JNull),
           (U ''mem'', field vm (U ''mem'')), (U ''maxmem'', field vm (U ''maxmem''))]"

text \<open>
  The storage priority in the words of the specification, over a listing whose entries carry
  a string identifier and, if any, a string of content types: \<open>local-lvm\<close> if it supports
  images, else \<open>vm-storage\<close> if it supports images, else the first entry in list order that
  supports images.
\<close>

definition storage_name :: "json \<Rightarrow> pystr option" where
  "storage_name s =
    (case s of
       JObj kvs \<Rightarrow> (case map_of kvs (U ''storage'') of Some (JStr nm) \<Rightarrow> Some nm | _ \<Rightarrow> None)
     | _ \<Rightarrow> None)"

definition content_of :: "json \<Rightarrow> pystr option" where
  "content_of s =
    (case s of
       JObj kvs \<Rightarrow> (case map_of kvs (U ''content'') of
                      None \<Rightarrow> Some [] | Some (JStr c) \<Rightarrow> Some c | _ \<Rightarrow> None)
     | _ \<Rightarrow> None)"

definition wf_storage :: "json \<Rightarrow> bool" where
  "wf_storage s = (storage_name s \<noteq> None \<and> content_of s \<noteq> None)"

definition images_ok :: "json \<Rightarrow> bool" where
  "images_ok s = (case content_of s of Some c \<Rightarrow> str_contains c (U ''images'') | None \<Rightarrow> False)"

definition spec_storage_choice :: "json list \<Rightarrow> pystr option" where
  "spec_storage_choice sl =
    (case find (\<lambda>s. storage_name s = Some (U ''local-lvm'') \<and> images_ok s) sl of
       Some s \<Rightarrow> storage_name s
     | None \<Rightarrow>
        (case find (\<lambda>s. storage_name s = Some (U ''vm-storage'') \<and> images_ok s) sl of
           Some s \<Rightarrow> storage_name s
         | None \<Rightarrow> (case find images_ok sl of Some s \<Rightarrow> storage_name s | None \<Rightarrow> None)))"

text \<open>
  A decoded response as the client can deliver it: every code point is a Unicode code point,
  no high surrogate is directly followed by a low one (decoding joins such a pair), and the
  keys of a dictionary are distinct.
\<close>

fun wf_str :: "pystr \<Rightarrow> bool" where
  "wf_str [] = True"
| "wf_str [c] = (c < 1114112)"
| "wf_str (c # d # cs) =
    (c < 1114112 \<and> \<not> (is_high_surrogate c \<and> is_low_surrogate d) \<and> wf_str (d # cs))"

fun wf_json :: "json \<Rightarrow> bool"
  and wf_list :: "json list \<Rightarrow> bool"
  and wf_members :: "(pystr \<times> json) list \<Rightarrow> bool" where
  "wf_json JNull = True"
| "wf_json (JBool b) = True"
| "wf_json (JInt i) = True"
| "wf_json (JStr s) = wf_str s"
| "wf_json (JList xs) = wf_list xs"
| "wf_json (JObj kvs) = (distinct (map fst kvs) \<and> wf_members kvs)"
| "wf_list [] = True"
| "wf_list (x # xs) = (wf_json x \<and> wf_list xs)"
| "wf_members [] = True"
| "wf_members ((k, v) # kvs) = (wf_str k \<and> wf_json v \<and> wf_members kvs)"

section \<open>A sample environment\<close>

text \<open>
  For the worked examples: a hypervisor that answers each request by a fixed table, an error
  helper that raises \<open>RuntimeError\<close>, a client for which every name is a sub-resource, and
  runtime functions restricted to what the examples use (ASCII case mapping, one decimal of
  an exact quotient, the one pattern of the registrations).
\<close>

definition sample_env :: "(call \<Rightarrow> py_exception + json) \<Rightarrow> tool_env" where
  "sample_env answers =
    \<lparr> proxmox = (\<lambda>tr c. answers c),
      handle_error = (\<lambda>opname e. Some (Exc (OtherError (U ''RuntimeError''))
                                      (U ''Failed to '' @ opname @ U '': '' @ exc_msg e))),
      resolve_attr = (\<lambda>name. None),
      py_repr = json_dumps,
      py_upper = map (\<lambda>c. if 97 \<le> c \<and> c \<le> 122 then c - 32 else c),
      py_lower = map (\<lambda>c. if 65 \<le> c \<and> c \<le> 90 then c + 32 else c),
      fmt_1f = (\<lambda>i. dec_int (i div 1024) @ U ''.0''),
      pattern_match = (\<lambda>p s. s = U ''pretty'' \<or> s = U ''json'') \<rparr>"

definition vm_locked :: py_exception where
  "vm_locked = Exc (OtherError (U ''ResourceException'')) (U ''500 Internal Server Error: VM is locked'')"

definition no_such_vm :: py_exception where
  "no_such_vm = Exc (OtherError (U ''ResourceException''))
                  (U ''500 Internal Server Error: Configuration file does not exist'')"

text \<open>A running machine 100 on node pve whose stop and destroy requests are accepted.\<close>

definition running_vm :: "call \<Rightarrow> py_exception + json" where
  "running_vm c =
    (if c = status_call (U ''pve'') (U ''100'')
     then Inr (JObj [(U ''status'', JStr (U ''running'')), (U ''name'', JStr (U ''web''))])
     else if c = stop_call (U ''pve'') (U ''100'') then Inr (JStr (U ''UPID:pve:qmstop''))
     else if c = delete_call (U ''pve'') (U ''100'') then Inr (JStr (U ''UPID:pve:qmdestroy''))
     else Inl vm_locked)"

text \<open>The same machine when the hypervisor refuses every write.\<close>

definition locked_vm :: "call \<Rightarrow> py_exception + json" where
  "locked_vm c =
    (if c = status_call (U ''pve'') (U ''100'')
     then Inr (JObj [(U ''status'', JStr (U ''running'')), (U ''name'', JStr (U ''web''))])
     else Inl vm_locked)"

text \<open>A stopped machine.\<close>

definition stopped_vm :: "call \<Rightarrow> py_exception + json" where
  "stopped_vm c =
    (if c = status_call (U ''pve'') (U ''100'')
     then Inr (JObj [(U ''status'', JStr (U ''stopped'')), (U ''name'', JStr (U ''web''))])
     else Inl vm_locked)"

text \<open>
  A cluster of two nodes with three machines, where every request other than the node
  enumeration and the per-node listings fails (the configuration reads among them).
\<close>

definition cluster_nodes :: "json list" where
  "cluster_nodes = [JObj [(U ''node'', JStr (U ''pve1'')), (U ''status'', JStr (U ''online''))],
                    JObj [(U ''node'', JStr (U ''pve2'')), (U ''status'', JStr (U ''online''))]]"

definition cluster_vms :: "json \<Rightarrow> json list" where
  "cluster_vms node_name =
    (if node_name = JStr (U ''pve1'')
     then [JObj [(U ''vmid'', JInt 100), (U ''name'', JStr (U ''web'')), (U ''status'', JStr (U ''running'')),
                 (U ''cpus'', JInt 4), (U ''mem'', JInt 1024), (U ''maxmem'', JInt 4096)],
           JObj [(U ''vmid'', JInt 101), (U ''status'', JStr (U ''stopped''))]]
     else if node_name = JStr (U ''pve2'')
     then [JObj [(U ''vmid'', JInt 200), (U ''name'', JStr (U ''db'')), (U ''status'', JStr (U ''running'')),
                 (U ''cpus'', JInt 8), (U ''mem'', JInt 2048), (U ''maxmem'', JInt 8192)]]
     else [])"

definition cluster :: "call \<Rightarrow> py_exception + json" where
  "cluster c =
    (if c = nodes_call then Inr (JList cluster_nodes)
     else if c = qemu_listing_call (JStr (U ''pve1'')) then Inr (JList (cluster_vms (JStr (U ''pve1''))))
     else if c = qemu_listing_call (JStr (U ''pve2'')) then Inr (JList (cluster_vms (JStr (U ''pve2''))))
     else Inl vm_locked)"

text \<open>A node pve with three storages and no machine 200 yet.\<close>

definition node_storages :: "json list" where
  "node_storages =
    [JObj [(U ''storage'', JStr (U ''local'')), (U ''type'', JStr (U ''dir'')),
           (U ''content'', JStr (U ''iso,vztmpl,backup''))],
     JObj [(U ''storage'', JStr (U ''tank'')), (U ''type'', JStr (U ''nfs'')),
           (U ''content'', JStr (U ''images,rootdir''))],
     JObj [(U ''storage'', JStr (U ''vm-storage'')), (U ''type'', JStr (U ''lvmthin'')),
           (U ''content'', JStr (U ''rootdir,images''))]]"

definition fresh_node :: "json list \<Rightarrow> call \<Rightarrow> py_exception + json" where
  "fresh_node storages c =
    (if c = config_call (U ''pve'') (U ''200'') then Inl no_such_vm
     else if c = storage_list_call (U ''pve'') then Inr (JList storages)
     else if call_verb c = POST then Inr (JStr (U ''UPID:pve:qmcreate''))
     else Inl vm_locked)"

text \<open>A hypervisor that answers every request with the same value.\<close>

definition always :: "json \<Rightarrow> call \<Rightarrow> py_exception + json" where
  "always r c = Inr r"

text \<open>
  The two shapes of a JSON answer. \<open>res\<close> is what a tool returned on trace \<open>tr\<close> after
  issuing one request: whenever it returned content, that content is one text block holding
  the serialisation of the answer to the request, wrapped as \<open>{"task": answer}\<close> or as
  it is.
\<close>

definition task_shaped :: "tool_env \<Rightarrow> call list \<Rightarrow> outcome \<times> call list \<Rightarrow> bool" where
  "task_shaped env tr res =
    (case fst res of
       Returned cs \<Rightarrow>
         (case proxmox env tr (last (snd res)) of
            Inr r \<Rightarrow> cs = [TextContent (json_dumps (JObj [(U ''task'', r)]))]
          | Inl e \<Rightarrow> False)
     | _ \<Rightarrow> True)"

definition raw_shaped :: "tool_env \<Rightarrow> call list \<Rightarrow> outcome \<times> call list \<Rightarrow> bool" where
  "raw_shaped env tr res =
    (case fst res of
       Returned cs \<Rightarrow>
         (case proxmox env tr (last (snd res)) of
            Inr r \<Rightarrow> cs = [TextContent (json_dumps r)]
          | Inl e \<Rightarrow> False)
     | _ \<Rightarrow> True)"

definition service_call :: "pystr \<Rightarrow> pystr \<Rightarrow> pystr \<Rightarrow> call" where
  "service_call node service action =
     Call POST [Attr (U ''nodes''), Arg (JStr node), Attr (U ''services''), Arg (JStr service), Attr action] []"

text \<open>
  The characters that can begin a serialised value, and the texts that can follow one: the
  end, a comma, or a closing bracket or brace.
\<close>

definition value_start :: "nat \<Rightarrow> bool" where
  "value_start c =
    (c = 110 \<or> c = 116 \<or> c = 102 \<or> c = 45 \<or> c = 34 \<or> c = 91 \<or> c = 123 \<or> is_digit c)"

definition delim_next :: "pystr \<Rightarrow> bool" where
  "delim_next r = (r = [] \<or> hd r = 44 \<or> hd r = 93 \<or> hd r = 125)"

text \<open>
  A storage listing as the hypervisor answers it, with a note holding a quotation mark, an
  accented letter and a pictograph.
\<close>

definition storage_pools :: json where
  "storage_pools =
    JList [JObj [(U ''storage'', JStr (U ''local'')), (U ''type'', JStr (U ''dir'')),
                 (U ''content'', JStr (U ''iso,backup'')), (U ''used'', JInt 1024),
                 (U ''shared'', JBool False), (U ''nodes'', JNull),
                 (U ''note'', JStr ([34] @ U ''caf'' @ [233, 32, 128512]))],
           JObj [(U ''storage'', JStr (U ''tank'')), (U ''type'', JStr (U ''nfs'')),
                 (U ''content'', JStr (U ''images'')), (U ''used'', JInt (- 1)),
                 (U ''shared'', JBool True), (U ''nodes'', JList [JStr (U ''pve1''), JStr (U ''pve2'')])]]"

section \<open>Properties\<close>

subsection \<open>Path normalisation of the generic passthrough\<close>

lemma strip_leading_slashes_dropWhile: "strip_leading_slashes p = dropWhile (\<lambda>c. c = 47) p"
  by (induction p) simp_all

lemma strip_prefix_startswith:
  "strip_prefix p s = (if startswith s p then Some (drop (length p) s) else None)"
  by (induction p s rule: strip_prefix.induct) auto

lemma normalize_path_spec: "normalize_path p = spec_normalize p"
  by (simp add: normalize_path_def spec_normalize_def strip_leading_slashes_dropWhile
      strip_prefix_startswith Let_def)

lemma proxmox_request_issued:
  "issued tr (snd (proxmox_request env m p ps d tr)) = [] \<or>
   (\<exists>v kw. issued tr (snd (proxmox_request env m p ps d tr)) = [Call v [Arg (JStr (normalize_path p))] kw])"
  by (auto simp: proxmox_request_def request_def issued_def Let_def split: sum.splits)

lemma proxmox_request_calls:
  assumes "p \<noteq> []"
    and "py_upper env m = U ''GET'' \<or> py_upper env m = U ''POST'' \<or> py_upper env m = U ''PUT''
         \<or> py_upper env m = U ''DELETE''"
  shows "\<exists>v kw. issued tr (snd (proxmox_request env m p ps d tr)) = [Call v [Arg (JStr (normalize_path p))] kw]"
  using assms
  by (auto simp: proxmox_request_def request_def issued_def Let_def split: sum.splits)

text \<open>
  C5. For every path string, the path \<open>proxmox_request\<close> hands to the client is the input
  with all leading slashes stripped and then one leading \<open>api2/json/\<close> removed if present:
  the normalisation of the source is the one the specification words, a call of the tool
  issues no request or exactly one request on the normalised path, it issues that request
  whenever the path is not empty and the method is one of the four verbs, and
  \<open>/api2/json/nodes\<close> is normalised to exactly \<open>nodes\<close>.
\<close>

theorem proxmox_request_normalizes_path:
  "normalize_path path = spec_normalize path
   \<and> (issued tr (snd (proxmox_request env method path params data tr)) = []
      \<or> (\<exists>v kw. issued tr (snd (proxmox_request env method path params data tr))
                 = [Call v [Arg (JStr (spec_normalize path))] kw]))
   \<and> (path \<noteq> [] \<and> (py_upper env method = U ''GET'' \<or> py_upper env method = U ''POST''
                     \<or> py_upper env method = U ''PUT'' \<or> py_upper env method = U ''DELETE'')
      \<longrightarrow> (\<exists>v kw. issued tr (snd (proxmox_request env method path params data tr))
                 = [Call v [Arg (JStr (spec_normalize path))] kw]))
   \<and> spec_normalize (U ''/api2/json/nodes'') = U ''nodes''"
proof -
  have ex: "spec_normalize (U ''/api2/json/nodes'') = U ''nodes''"
    by (simp add: spec_normalize_def)
  show ?thesis
    using proxmox_request_issued [where tr = "tr" and env = "env" and m = "method" and p = "path"
        and ps = "params" and d = "data"]
      proxmox_request_calls [where p = "path" and env = "env" and m = "method" and tr = "tr"
        and ps = "params" and d = "data"] ex
    by (simp add: normalize_path_spec)
qed

theorem proxmox_request_normalizes_path_witness:
  "\<exists>v kw. issued [] (snd (proxmox_request (sample_env (always (JList []))) (U ''GET'')
                          (U ''/api2/json/nodes'') None None []))
          = [Call v [Arg (JStr (U ''nodes''))] kw]"
proof -
  have m: "py_upper (sample_env (always (JList []))) (U ''GET'') = U ''GET''"
    by (simp add: sample_env_def)
  note inst = proxmox_request_normalizes_path
      [of "U ''/api2/json/nodes''" "[]" "sample_env (always (JList []))" "U ''GET''" None None]
  from inst have ex: "spec_normalize (U ''/api2/json/nodes'') = U ''nodes''"
    by blast
  from inst m have "\<exists>v kw. issued [] (snd (proxmox_request (sample_env (always (JList []))) (U ''GET'')
                          (U ''/api2/json/nodes'') None None []))
          = [Call v [Arg (JStr (spec_normalize (U ''/api2/json/nodes'')))] kw]"
    by fastforce
  then show ?thesis
    unfolding ex .
qed

subsection \<open>Deleting and resetting a machine\<close>

lemma py_get_Inr_obj: "py_get x k d = Inr v \<Longrightarrow> \<exists>kvs. x = JObj kvs"
  by (cases x) (simp_all add: py_get_def)

text \<open>
  C1, as the code has it. For every machine whose status read answers "running":
  \<open>delete_vm\<close> without \<open>force\<close> raises the \<open>ValueError\<close> of the conflict having
  issued the status read and nothing else, so no stop and no delete request; with
  \<open>force\<close> it issues the status read, then exactly one stop request, and then exactly one
  delete request if the stop request returned, and no delete request if the stop request
  raised.
\<close>

theorem delete_vm_running:
  assumes "proxmox env tr (status_call node vmid) = Inr vm_status"
      and "py_get vm_status (U ''status'') JNull = Inr (JStr (U ''running''))"
  shows "(\<exists>msg. fst (delete_vm env node vmid False tr) = Raised (Exc ValueError msg))
       \<and> issued tr (snd (delete_vm env node vmid False tr)) = [status_call node vmid]
       \<and> issued tr (snd (delete_vm env node vmid True tr)) =
           [status_call node vmid, stop_call node vmid] @
           (case proxmox env (tr @ [status_call node vmid]) (stop_call node vmid) of
              Inl e \<Rightarrow> [] | Inr stopped \<Rightarrow> [delete_call node vmid])"
proof -
  obtain kvs where kvs: "vm_status = JObj kvs"
    using assms(2) py_get_Inr_obj by blast
  show ?thesis
    using assms unfolding kvs
    by (simp add: delete_vm_def request_def status_call_def stop_call_def delete_call_def
        py_get_def issued_def Let_def split: sum.splits)
qed

lemma running_vm_status:
  "proxmox (sample_env running_vm) [] (status_call (U ''pve'') (U ''100''))
     = Inr (JObj [(U ''status'', JStr (U ''running'')), (U ''name'', JStr (U ''web''))])"
  by (simp add: sample_env_def running_vm_def)

lemma running_vm_stop:
  "proxmox (sample_env running_vm) [status_call (U ''pve'') (U ''100'')] (stop_call (U ''pve'') (U ''100''))
     = Inr (JStr (U ''UPID:pve:qmstop''))"
  by (simp add: sample_env_def running_vm_def status_call_def stop_call_def)

lemma reports_running:
  "py_get (JObj [(U ''status'', JStr (U ''running'')), (U ''name'', JStr (U ''web''))]) (U ''status'') JNull
     = Inr (JStr (U ''running''))"
  by (simp add: py_get_def)

theorem delete_vm_running_witness:
  "(\<exists>msg. fst (delete_vm (sample_env running_vm) (U ''pve'') (U ''100'') False []) = Raised (Exc ValueError msg))
   \<and> issued [] (snd (delete_vm (sample_env running_vm) (U ''pve'') (U ''100'') False []))
       = [status_call (U ''pve'') (U ''100'')]
   \<and> issued [] (snd (delete_vm (sample_env running_vm) (U ''pve'') (U ''100'') True []))
       = [status_call (U ''pve'') (U ''100''), stop_call (U ''pve'') (U ''100''),
          delete_call (U ''pve'') (U ''100'')]"
  using delete_vm_running [OF running_vm_status reports_running]
    running_vm_stop
  by simp

text \<open>
  The claim as stated fails where the stop request raises: the machine is reported as
  running, \<open>force\<close> is set, and the stop request is the last request issued; no delete
  request follows it.
\<close>

theorem delete_vm_force_stop_refused:
  "issued [] (snd (delete_vm (sample_env locked_vm) (U ''pve'') (U ''100'') True []))
     = [status_call (U ''pve'') (U ''100''), stop_call (U ''pve'') (U ''100'')]"
  by (simp add: delete_vm_def request_def sample_env_def locked_vm_def status_call_def stop_call_def
      py_get_def Let_def qemu_path_def handled_def vm_locked_def issued_def)

text \<open>
  C2, as the code has it. For every machine whose status read answers "stopped",
  \<open>reset_vm\<close> returns one text block saying that the machine cannot be reset because it
  is stopped, and the status read is the only request it issues: no write, and the reset
  endpoint is not invoked. The call returns normally; it does not raise.
\<close>

theorem reset_vm_stopped:
  assumes "proxmox env tr (status_call node vmid) = Inr vm_status"
      and "py_get vm_status (U ''status'') JNull = Inr (JStr (U ''stopped''))"
  shows "fst (reset_vm env node vmid tr) =
           Returned [TextContent
             ([9888, 65039] @ U '' Cannot reset VM '' @ vmid @ U '': VM is currently stopped'' @ [10] @
              U ''Use start_vm to start it first'')]
       \<and> issued tr (snd (reset_vm env node vmid tr)) = [status_call node vmid]
       \<and> filter is_write (issued tr (snd (reset_vm env node vmid tr))) = []"
  using assms
  by (simp add: reset_vm_def request_def status_call_def issued_def is_write_def Let_def)

lemma stopped_vm_status:
  "proxmox (sample_env stopped_vm) [] (status_call (U ''pve'') (U ''100''))
     = Inr (JObj [(U ''status'', JStr (U ''stopped'')), (U ''name'', JStr (U ''web''))])"
  by (simp add: sample_env_def stopped_vm_def)

lemma reports_stopped:
  "py_get (JObj [(U ''status'', JStr (U ''stopped'')), (U ''name'', JStr (U ''web''))]) (U ''status'') JNull
     = Inr (JStr (U ''stopped''))"
  by (simp add: py_get_def)

theorem reset_vm_stopped_witness:
  "fst (reset_vm (sample_env stopped_vm) (U ''pve'') (U ''100'') []) =
     Returned [TextContent
       ([9888, 65039] @ U '' Cannot reset VM 100: VM is currently stopped'' @ [10] @
        U ''Use start_vm to start it first'')]
   \<and> filter is_write (issued [] (snd (reset_vm (sample_env stopped_vm) (U ''pve'') (U ''100'') []))) = []"
  using reset_vm_stopped [OF stopped_vm_status reports_stopped]
  by (simp add: is_write_def status_call_def)

text \<open>
  The claim as stated fails on its first half: on a stopped machine \<open>reset_vm\<close> ends by
  returning content, which is not a failure of any kind.
\<close>

theorem reset_vm_stopped_is_no_error:
  "fst (reset_vm (sample_env stopped_vm) (U ''pve'') (U ''100'') []) =
     Returned [TextContent
       ([9888, 65039] @ U '' Cannot reset VM 100: VM is currently stopped'' @ [10] @
        U ''Use start_vm to start it first'')]"
  by (simp add: reset_vm_def request_def sample_env_def stopped_vm_def status_call_def
      py_get_def Let_def qemu_path_def)

subsection \<open>The cluster-wide listing\<close>

lemma vm_entries_cpus: "vm_entries nm vms = Inr es \<Longrightarrow> list_all has_null_cpus es"
  by (induction vms arbitrary: es) (auto simp: has_null_cpus_def split: sum.splits)

lemma nodes_loop_cpus: "nodes_loop env ns tr = (Inr es, tr') \<Longrightarrow> list_all has_null_cpus es"
proof (induction ns arbitrary: tr es tr')
  case Nil
  then show ?case by simp
next
  case (Cons n ns)
  then show ?case
    by (auto split: sum.splits prod.splits dest: vm_entries_cpus)
qed

lemma nodes_loop_trace:
  "\<exists>cs. snd (nodes_loop env ns tr) = tr @ cs \<and> list_all is_listing_call cs"
proof (induction ns arbitrary: tr)
  case Nil
  then show ?case by simp
next
  case (Cons n ns)
  show ?case
  proof (cases "py_getitem n (U ''node'')")
    case (Inl e)
    then show ?thesis by simp
  next
    case (Inr nm)
    let ?c = "Call GET [Attr (U ''nodes''), Arg nm, Attr (U ''qemu'')] []"
    from Cons [of "tr @ [?c]"] obtain cs where
      cs: "snd (nodes_loop env ns (tr @ [?c])) = tr @ [?c] @ cs" "list_all is_listing_call cs"
      by auto
    have c: "is_listing_call ?c" by (simp add: is_listing_call_def)
    show ?thesis
      using Inr cs c
      by (auto simp: request_def split: sum.splits prod.splits)
  qed
qed

lemma get_vms_trace:
  "\<exists>cs. snd (get_vms env tr) = tr @ cs \<and> list_all is_listing_call cs"
proof -
  let ?c = "Call GET [Attr (U ''nodes'')] []"
  have c: "is_listing_call ?c" by (simp add: is_listing_call_def)
  show ?thesis
  proof (cases "proxmox env tr ?c")
    case (Inl e)
    then show ?thesis using c by (simp add: get_vms_def request_def)
  next
    case ns: (Inr ns)
    show ?thesis
    proof (cases "py_iter ns")
      case (Inl e)
      then show ?thesis using ns c by (simp add: get_vms_def request_def)
    next
      case (Inr nl)
      from nodes_loop_trace [of env nl "tr @ [?c]"] obtain cs where
        cs: "snd (nodes_loop env nl (tr @ [?c])) = tr @ [?c] @ cs" "list_all is_listing_call cs"
        by auto
      show ?thesis using ns Inr cs c
        by (auto simp: get_vms_def request_def split: sum.splits prod.splits)
    qed
  qed
qed

lemma get_vms_returned:
  "fst (get_vms env tr) = Returned cs \<Longrightarrow>
     \<exists>es. cs = [TextContent (json_dumps (JList es))] \<and> list_all has_null_cpus es"
  by (auto simp: get_vms_def handled_def split: sum.splits prod.splits option.splits
      dest: nodes_loop_cpus)

lemma vm_entries_coarse:
  "list_all (has_key (U ''vmid'')) vms \<Longrightarrow> vm_entries nm vms = Inr (map (coarse_entry nm) vms)"
proof (induction vms)
  case Nil
  then show ?case by simp
next
  case (Cons vm vms)
  then obtain kvs v where "vm = JObj kvs" "map_of kvs (U ''vmid'') = Some v"
    by (cases vm) (auto simp: has_key_def)
  with Cons show ?case
    by (simp add: py_getitem_def py_get_def coarse_entry_def field_def)
qed

lemma nodes_loop_coarse:
  assumes "\<forall>nm\<in>set names. \<forall>tr'. proxmox env tr' (qemu_listing_call nm) = Inr (JList (vms_of nm))"
      and "\<forall>nm\<in>set names. list_all (has_key (U ''vmid'')) (vms_of nm)"
      and "map (\<lambda>n. py_getitem n (U ''node'')) ns = map Inr names"
  shows "nodes_loop env ns tr =
      (Inr (concat (map (\<lambda>nm. map (coarse_entry nm) (vms_of nm)) names)), tr @ map qemu_listing_call names)"
  using assms
proof (induction ns arbitrary: names tr)
  case Nil
  then show ?case by simp
next
  case (Cons n ns)
  then obtain nm names' where names: "names = nm # names'" by (cases names) auto
  with Cons.prems have n: "py_getitem n (U ''node'') = Inr nm"
    and rest: "map (\<lambda>n. py_getitem n (U ''node'')) ns = map Inr names'" by auto
  have l: "proxmox env tr (qemu_listing_call nm) = Inr (JList (vms_of nm))"
    using Cons.prems(1) names by simp
  have v: "vm_entries nm (vms_of nm) = Inr (map (coarse_entry nm) (vms_of nm))"
    using Cons.prems(2) names by (simp add: vm_entries_coarse)
  have ih: "nodes_loop env ns (tr @ [qemu_listing_call nm]) =
      (Inr (concat (map (\<lambda>nm. map (coarse_entry nm) (vms_of nm)) names')),
       (tr @ [qemu_listing_call nm]) @ map qemu_listing_call names')"
    using Cons.prems(1,2) names rest by (intro Cons.IH) auto
  show ?case
    using n l v ih names
    by (simp add: request_def qemu_listing_call_def py_iter_def)
qed

lemma get_vms_coarse:
  assumes "\<forall>tr'. proxmox env tr' nodes_call = Inr (JList ns)"
      and "map (\<lambda>n. py_getitem n (U ''node'')) ns = map Inr names"
      and "\<forall>nm\<in>set names. \<forall>tr'. proxmox env tr' (qemu_listing_call nm) = Inr (JList (vms_of nm))"
      and "\<forall>nm\<in>set names. list_all (has_key (U ''vmid'')) (vms_of nm)"
  shows "get_vms env tr =
      (Returned [TextContent (json_dumps (JList
          (concat (map (\<lambda>nm. map (coarse_entry nm) (vms_of nm)) names))))],
       tr @ nodes_call # map qemu_listing_call names)"
proof -
  have n: "proxmox env tr (Call GET [Attr (U ''nodes'')] []) = Inr (JList ns)"
    using assms(1) by (simp add: nodes_call_def)
  show ?thesis
    using n nodes_loop_coarse [OF assms(3,4,2), of "tr @ [nodes_call]"]
    by (simp add: get_vms_def request_def py_iter_def nodes_call_def)
qed

text \<open>
  C3. In every cluster state where the node enumeration answers a list of nodes carrying
  their names and each per-node listing answers a list of machines carrying their ids
  (whatever any other request, a per-machine configuration read among them, would answer or
  raise), \<open>get_vms\<close> returns the JSON list holding, node by node and in listing order, one
  entry for every machine; each entry is made of the fields of the per-node listing and the
  node name only; the only requests issued are the enumeration and one listing per node; and
  running the listing again on the trace the first run left returns the same content.
\<close>

theorem get_vms_coarse_listing:
  assumes "\<forall>tr'. proxmox env tr' nodes_call = Inr (JList ns)"
      and "map (\<lambda>n. py_getitem n (U ''node'')) ns = map Inr names"
      and "\<forall>nm\<in>set names. \<forall>tr'. proxmox env tr' (qemu_listing_call nm) = Inr (JList (vms_of nm))"
      and "\<forall>nm\<in>set names. list_all (has_key (U ''vmid'')) (vms_of nm)"
  shows "fst (get_vms env tr) =
           Returned [TextContent (json_dumps (JList
             (concat (map (\<lambda>nm. map (coarse_entry nm) (vms_of nm)) names))))]
       \<and> issued tr (snd (get_vms env tr)) = nodes_call # map qemu_listing_call names
       \<and> fst (get_vms env (snd (get_vms env tr))) = fst (get_vms env tr)"
  using get_vms_coarse [OF assms] by (simp add: issued_def)

lemma cluster_names:
  "map (\<lambda>n. py_getitem n (U ''node'')) cluster_nodes = map Inr [JStr (U ''pve1''), JStr (U ''pve2'')]"
  by (simp add: cluster_nodes_def py_getitem_def)

lemma cluster_listings:
  "\<forall>nm\<in>set [JStr (U ''pve1''), JStr (U ''pve2'')].
     \<forall>tr'. proxmox (sample_env cluster) tr' (qemu_listing_call nm) = Inr (JList (cluster_vms nm))"
  by (simp add: sample_env_def cluster_def qemu_listing_call_def nodes_call_def)

lemma cluster_vmids:
  "\<forall>nm\<in>set [JStr (U ''pve1''), JStr (U ''pve2'')]. list_all (has_key (U ''vmid'')) (cluster_vms nm)"
  by (simp add: cluster_vms_def has_key_def)

lemma cluster_enumeration: "\<forall>tr'. proxmox (sample_env cluster) tr' nodes_call = Inr (JList cluster_nodes)"
  by (simp add: sample_env_def cluster_def)

lemma cluster_config_fails:
  "proxmox (sample_env cluster) tr (config_call (U ''pve1'') (U ''100'')) = Inl vm_locked"
  by (simp add: sample_env_def cluster_def config_call_def nodes_call_def qemu_listing_call_def
      qemu_path_def)

theorem get_vms_coarse_listing_witness:
  "proxmox (sample_env cluster) [] (config_call (U ''pve1'') (U ''100'')) = Inl vm_locked
   \<and> fst (get_vms (sample_env cluster) []) =
       Returned [TextContent (json_dumps (JList
         [coarse_entry (JStr (U ''pve1'')) (cluster_vms (JStr (U ''pve1'')) ! 0),
          coarse_entry (JStr (U ''pve1'')) (cluster_vms (JStr (U ''pve1'')) ! 1),
          coarse_entry (JStr (U ''pve2'')) (cluster_vms (JStr (U ''pve2'')) ! 0)]))]
   \<and> fst (get_vms (sample_env cluster) (snd (get_vms (sample_env cluster) [])))
       = fst (get_vms (sample_env cluster) [])"
  using get_vms_coarse_listing [OF cluster_enumeration cluster_names cluster_listings cluster_vmids, of "[]"]
    cluster_config_fails [of "[]"]
  by (simp add: cluster_vms_def)

text \<open>
  C10. In every hypervisor state, every request \<open>get_vms\<close> issues is a read on the node
  enumeration or on the machine listing of a node, so never a per-machine configuration or
  detail request; and whenever it returns content, that is the JSON list of entries each of
  which has \<open>null\<close> under \<open>cpus\<close>, whatever the listing said about the processors.
\<close>

theorem get_vms_reads_only:
  "(\<exists>cs. snd (get_vms env tr) = tr @ cs \<and> list_all is_listing_call cs
         \<and> filter is_write cs = [])
   \<and> (\<forall>cs. fst (get_vms env tr) = Returned cs \<longrightarrow>
         (\<exists>es. cs = [TextContent (json_dumps (JList es))] \<and> list_all has_null_cpus es))"
proof -
  obtain cs where cs: "snd (get_vms env tr) = tr @ cs" "list_all is_listing_call cs"
    using get_vms_trace by blast
  have "filter is_write cs = []"
    using cs(2) by (induction cs) (auto simp: is_listing_call_def is_write_def)
  with cs show ?thesis
    using get_vms_returned by blast
qed

theorem get_vms_reads_only_witness:
  "list_all is_listing_call (issued [] (snd (get_vms (sample_env cluster) [])))
   \<and> (\<exists>es. fst (get_vms (sample_env cluster) []) = Returned [TextContent (json_dumps (JList es))]
          \<and> list_all has_null_cpus es)"
proof -
  let ?entries = "concat (map (\<lambda>nm. map (coarse_entry nm) (cluster_vms nm))
                       [JStr (U ''pve1''), JStr (U ''pve2'')])"
  have r: "get_vms (sample_env cluster) [] =
      (Returned [TextContent (json_dumps (JList ?entries))],
       [] @ nodes_call # map qemu_listing_call [JStr (U ''pve1''), JStr (U ''pve2'')])"
    by (rule get_vms_coarse [OF cluster_enumeration cluster_names cluster_listings cluster_vmids])
  have f: "fst (get_vms (sample_env cluster) []) = Returned [TextContent (json_dumps (JList ?entries))]"
    by (simp only: r fst_conv)
  note inst = get_vms_reads_only [of "sample_env cluster" "[]"]
  from inst obtain cs where cs: "snd (get_vms (sample_env cluster) []) = [] @ cs"
    "list_all is_listing_call cs"
    by blast
  have a: "list_all is_listing_call (issued [] (snd (get_vms (sample_env cluster) [])))"
    unfolding cs(1) issued_def using cs(2) by simp
  from inst f obtain es where es:
    "[TextContent (json_dumps (JList ?entries))] = [TextContent (json_dumps (JList es))]"
    "list_all has_null_cpus es"
    by blast
  have "fst (get_vms (sample_env cluster) []) = Returned [TextContent (json_dumps (JList es))]"
    using f es(1) by (simp only:)
  with es(2) a show ?thesis by blast
qed

subsection \<open>Service actions\<close>

text \<open>
  C7, as the code has it. \<open>service_action\<close> has no table of supported actions and
  rejects nothing itself: for every action string that the client takes as the name of a
  sub-resource (\<open>start\<close>, \<open>stop\<close> and \<open>restart\<close> as much as any other), it issues
  exactly one \<open>POST\<close> on \<open>nodes/{node}/services/{service}/{action}\<close>, and it returns the
  answer wrapped as a task, or raises what the client raised.
\<close>

theorem service_action_dispatches_on_name:
  assumes "resolve_attr env action = None"
  shows "issued tr (snd (service_action env node service action tr)) = [service_call node service action]
       \<and> fst (service_action env node service action tr) =
           (case proxmox env tr (service_call node service action) of
              Inl e \<Rightarrow> Raised e
            | Inr result \<Rightarrow> Returned [TextContent (json_dumps (JObj [(U ''task'', result)]))])"
  using assms
  by (simp add: service_action_def service_call_def request_def issued_def split: sum.splits)

lemma sample_env_resolves: "resolve_attr (sample_env answers) action = None"
  by (simp add: sample_env_def)

lemma sample_env_always: "proxmox (sample_env (always r)) tr c = Inr r"
  by (simp add: sample_env_def always_def)

theorem service_action_dispatches_on_name_witness:
  "issued [] (snd (service_action (sample_env (always (JStr (U ''UPID:pve:srvrestart''))))
                     (U ''pve'') (U ''pveproxy'') (U ''restart'') []))
     = [service_call (U ''pve'') (U ''pveproxy'') (U ''restart'')]
   \<and> fst (service_action (sample_env (always (JStr (U ''UPID:pve:srvrestart''))))
            (U ''pve'') (U ''pveproxy'') (U ''restart'') [])
     = Returned [TextContent (json_dumps (JObj [(U ''task'', JStr (U ''UPID:pve:srvrestart''))]))]"
  using service_action_dispatches_on_name
    [where env = "sample_env (always (JStr (U ''UPID:pve:srvrestart'')))" and action = "U ''restart''"
       and tr = "[]" and node = "U ''pve''" and service = "U ''pveproxy''", OF sample_env_resolves]
  by (simp only: sample_env_always sum.case)

text \<open>
  The claim as stated fails at the action \<open>reload\<close>, which is none of the three: the call
  is not rejected; one \<open>POST\<close> goes to the sub-path of that name and its answer is returned.
\<close>

theorem service_action_reload_not_rejected:
  "service_action (sample_env (always (JStr (U ''UPID:pve:srvreload''))))
      (U ''pve'') (U ''pveproxy'') (U ''reload'') []
   = (Returned [TextContent (json_dumps (JObj [(U ''task'', JStr (U ''UPID:pve:srvreload''))]))],
      [service_call (U ''pve'') (U ''pveproxy'') (U ''reload'')])"
  by (simp add: service_action_def service_call_def request_def sample_env_def always_def
      del: json_dumps.simps)

subsection \<open>Shapes of the answers\<close>

lemma task_json_shaped: "task_shaped env tr (task_json env opname (request env v p kw tr))"
  by (simp add: task_shaped_def task_json_def request_def handled_def
      split: sum.splits option.splits)

lemma raw_json_shaped: "raw_shaped env tr (raw_json env opname (request env v p kw tr))"
  by (simp add: raw_shaped_def raw_json_def request_def handled_def
      split: sum.splits option.splits)

lemma raw_json_unhandled_shaped: "raw_shaped env tr (raw_json_unhandled (request env v p kw tr))"
  by (simp add: raw_shaped_def raw_json_unhandled_def request_def split: sum.splits)

lemma service_action_shaped: "task_shaped env tr (service_action env node service action tr)"
  by (simp add: task_shaped_def service_action_def request_def split: sum.splits option.splits)

lemma raw_shaped_handled: "raw_shaped env tr (handled env opname e, tr')"
  by (simp add: raw_shaped_def handled_def split: option.splits)

lemma proxmox_request_unfold:
  "proxmox_request env method path params data tr =
    (if path = [] then
       (handled env (U ''generic request '' @ method @ U '' '' @ path)
          (Exc ValueError (U ''path must be a non-empty string'')), tr)
     else if py_upper env method = U ''GET'' then
       raw_json env (U ''generic request '' @ method @ U '' '' @ path)
         (request env GET [Arg (JStr (normalize_path path))] (or_empty params) tr)
     else if py_upper env method = U ''POST'' then
       raw_json env (U ''generic request '' @ method @ U '' '' @ path)
         (request env POST [Arg (JStr (normalize_path path))]
            (dict_merge (or_empty params) (or_empty data)) tr)
     else if py_upper env method = U ''PUT'' then
       raw_json env (U ''generic request '' @ method @ U '' '' @ path)
         (request env PUT [Arg (JStr (normalize_path path))]
            (dict_merge (or_empty params) (or_empty data)) tr)
     else if py_upper env method = U ''DELETE'' then
       raw_json env (U ''generic request '' @ method @ U '' '' @ path)
         (request env DELETE [Arg (JStr (normalize_path path))] (or_empty params) tr)
     else
       (handled env (U ''generic request '' @ method @ U '' '' @ path)
          (Exc ValueError (U ''Unsupported method. Use GET, POST, PUT or DELETE'')), tr))"
  unfolding proxmox_request_def raw_json_def Let_def by (rule refl)

lemma proxmox_request_shaped: "raw_shaped env tr (proxmox_request env m p ps d tr)"
  unfolding proxmox_request_unfold
  by (simp only: raw_json_shaped raw_shaped_handled if_split) simp

text \<open>
  C4, as the code has it. The wrapping is decided tool by tool, not by the verb. The VM
  snapshot, clone, migrate, configuration and resize tools and \<open>service_action\<close> return
  \<open>json.dumps({"task": answer})\<close>. The writes \<open>create_user\<close> and
  \<open>delete_storage_content\<close> return \<open>json.dumps(answer)\<close> with no wrapping, exactly as
  the reads \<open>get_vm_status\<close>, \<open>get_vm_snapshots\<close>, \<open>get_storage\<close> and
  \<open>list_users\<close> and the generic passthrough (with any verb) do.
\<close>

theorem answer_shapes:
  "task_shaped env tr (create_vm_snapshot env node vmid snapname vmstate description tr)
   \<and> task_shaped env tr (delete_vm_snapshot env node vmid snapname tr)
   \<and> task_shaped env tr (rollback_vm_snapshot env node vmid snapname tr)
   \<and> task_shaped env tr (clone_vm env node vmid target newid name full storage tr)
   \<and> task_shaped env tr (migrate_vm env node vmid target' online tr)
   \<and> task_shaped env tr (update_vm_config env node vmid changes tr)
   \<and> task_shaped env tr (resize_vm_disk env node vmid disk size' tr)
   \<and> task_shaped env tr (service_action env node service action tr)
   \<and> raw_shaped env tr (create_user env user password comment expire enable tr)
   \<and> raw_shaped env tr (delete_storage_content env node storage' volume tr)
   \<and> raw_shaped env tr (get_vm_status env node vmid tr)
   \<and> raw_shaped env tr (get_vm_snapshots env node vmid tr)
   \<and> raw_shaped env tr (get_storage env tr)
   \<and> raw_shaped env tr (list_users env tr)
   \<and> raw_shaped env tr (proxmox_request env method path params data tr)"
  by (simp add: proxmox_request_shaped create_vm_snapshot_def delete_vm_snapshot_def rollback_vm_snapshot_def clone_vm_def
      migrate_vm_def update_vm_config_def resize_vm_disk_def create_user_def
      delete_storage_content_def get_vm_status_def get_vm_snapshots_def get_storage_def
      list_users_def task_json_shaped raw_json_shaped raw_json_unhandled_shaped
      service_action_shaped Let_def del: json_dumps.simps)

theorem answer_shapes_witness:
  "fst (create_vm_snapshot (sample_env (always (JStr (U ''UPID:pve:qmsnapshot''))))
          (U ''pve'') (U ''100'') (U ''before-upgrade'') (Some True) None [])
     = Returned [TextContent (json_dumps (JObj [(U ''task'', JStr (U ''UPID:pve:qmsnapshot''))]))]
   \<and> fst (get_storage (sample_env (always (JList []))) [])
     = Returned [TextContent (json_dumps (JList []))]"
proof -
  let ?E = "sample_env (always (JStr (U ''UPID:pve:qmsnapshot'')))"
  let ?F = "sample_env (always (JList []))"
  have a: "\<exists>cs c. create_vm_snapshot ?E (U ''pve'') (U ''100'') (U ''before-upgrade'') (Some True) None []
             = (Returned cs, [c])"
    by (simp add: create_vm_snapshot_def task_json_def request_def sample_env_always Let_def
        del: json_dumps.simps)
  have b: "\<exists>cs c. get_storage ?F [] = (Returned cs, [c])"
    by (simp add: get_storage_def raw_json_def request_def sample_env_always del: json_dumps.simps)
  have "task_shaped ?E [] (create_vm_snapshot ?E (U ''pve'') (U ''100'') (U ''before-upgrade'')
                             (Some True) None [])"
    using answer_shapes [where env = ?E and tr = "[]" and node = "U ''pve''" and vmid = "U ''100''"
        and snapname = "U ''before-upgrade''" and vmstate = "Some True" and description = None]
    by (rule conjunct1)
  with a have 1: "fst (create_vm_snapshot ?E (U ''pve'') (U ''100'') (U ''before-upgrade'') (Some True) None [])
     = Returned [TextContent (json_dumps (JObj [(U ''task'', JStr (U ''UPID:pve:qmsnapshot''))]))]"
    by (auto simp: task_shaped_def sample_env_always simp del: json_dumps.simps)
  have "raw_shaped ?F [] (get_storage ?F [])"
    by (rule answer_shapes [where env = ?F and tr = "[]", THEN conjunct2, THEN conjunct2,
          THEN conjunct2, THEN conjunct2, THEN conjunct2, THEN conjunct2, THEN conjunct2,
          THEN conjunct2, THEN conjunct2, THEN conjunct2, THEN conjunct2, THEN conjunct2,
          THEN conjunct1])
  with b have 2: "fst (get_storage ?F []) = Returned [TextContent (json_dumps (JList []))]"
    by (auto simp: raw_shaped_def sample_env_always simp del: json_dumps.simps)
  from 1 2 show ?thesis by blast
qed

text \<open>
  The claim as stated fails at two writes. Deleting a volume is answered by the hypervisor
  with a task identifier, and \<open>delete_storage_content\<close> returns that identifier as a bare
  JSON string; \<open>create_user\<close> returns the answer of its \<open>POST\<close> as it is. Neither
  text is the \<open>{"task": ...}\<close> object.
\<close>

theorem writes_without_task_wrapping:
  "delete_storage_content (sample_env (always (JStr (U ''UPID:pve:imgdel''))))
      (U ''pve'') (U ''local'') (U ''local:iso/old.iso'') []
   = (Returned [TextContent ([34] @ U ''UPID:pve:imgdel'' @ [34])],
      [Call DELETE [Attr (U ''nodes''), Arg (JStr (U ''pve'')), Attr (U ''storage''),
                    Arg (JStr (U ''local'')), Attr (U ''content''),
                    Arg (JStr (U ''local:iso/old.iso''))] []])
   \<and> create_user (sample_env (always JNull)) (U ''alice@pve'') None None None (Some True) []
   = (Returned [TextContent (U ''null'')],
      [Call POST [Attr (U ''access''), Attr (U ''users'')]
         [(U ''userid'', JStr (U ''alice@pve'')), (U ''enable'', JInt 1)]])
   \<and> json_dumps (JObj [(U ''task'', JStr (U ''UPID:pve:imgdel''))])
       = U ''{'' @ [34] @ U ''task'' @ [34] @ U '': '' @ [34] @ U ''UPID:pve:imgdel'' @ [34] @ U ''}''
   \<and> json_dumps (JObj [(U ''task'', JNull)]) = U ''{'' @ [34] @ U ''task'' @ [34] @ U '': null}''"
  by (simp add: delete_storage_content_def create_user_def raw_json_def raw_json_unhandled_def
      request_def sample_env_always set_if_given_def int_of_bool_def dumps_str_def escape_char_def
      Let_def)

subsection \<open>Declared ranges\<close>

text \<open>
  C6. The registrations declare \<open>cpus\<close> in 1..32, \<open>memory\<close> in 512..131072 and
  \<open>disk_size\<close> in 5..1000 for \<open>create_vm\<close>, and \<open>timeout_seconds\<close> in 1..600 for
  \<open>stop_container\<close> and \<open>restart_container\<close>. A call with one of these values outside
  its range is refused as an invalid argument: the registered function does not run and no
  request is issued.
\<close>

theorem out_of_range_rejected:
  "(cpus < 1 \<or> 32 < cpus \<or> memory < 512 \<or> 131072 < memory \<or> disk_size < 5 \<or> 1000 < disk_size
      \<longrightarrow> (\<exists>bad. registered_create_vm env node vmid name cpus memory disk_size storage ostype tr
                   = (ArgumentsRejected bad, tr)))
   \<and> (timeout_seconds < 1 \<or> 600 < timeout_seconds
      \<longrightarrow> (\<exists>bad. registered_stop_container stop_container selector graceful timeout_seconds
                     format_style tr = (ArgumentsRejected bad, tr))
        \<and> (\<exists>bad. registered_restart_container env restart_container selector timeout_seconds
                     format_style tr = (ArgumentsRejected bad, tr)))"
  by (auto simp: registered_create_vm_def registered_stop_container_def
      registered_restart_container_def violations_def in_bounds_def Let_def)

theorem out_of_range_rejected_witness:
  "(\<exists>bad. registered_create_vm (sample_env running_vm) (U ''pve'') (U ''200'') (U ''big'') 64 2048 20
             None None [] = (ArgumentsRejected bad, []))
   \<and> (\<exists>bad. registered_stop_container (\<lambda>selector graceful timeout_seconds format_style tr.
                 (Returned [], tr @ [stop_call (U ''pve'') selector]))
               (U ''101'') True 0 (U ''pretty'') [] = (ArgumentsRejected bad, []))"
  using out_of_range_rejected
    [where cpus = 64 and memory = 2048 and disk_size = 20 and timeout_seconds = 0
       and env = "sample_env running_vm" and node = "U ''pve''" and vmid = "U ''200''"
       and name = "U ''big''" and storage = None and ostype = None and tr = "[]"
       and stop_container = "\<lambda>selector graceful timeout_seconds format_style tr.
                 (Returned [], tr @ [stop_call (U ''pve'') selector])"
       and selector = "U ''101''" and graceful = True and format_style = "U ''pretty''"]
  by simp

subsection \<open>Storage auto-detection\<close>

lemma wf_storage_getitem:
  "wf_storage s \<Longrightarrow> \<exists>nm. storage_name s = Some nm \<and> py_getitem s (U ''storage'') = Inr (JStr nm)"
  by (auto simp: wf_storage_def storage_name_def py_getitem_def split: json.splits option.splits)

lemma wf_storage_supports: "wf_storage s \<Longrightarrow> supports_images s = Inr (images_ok s)"
  by (auto simp: wf_storage_def content_of_def supports_images_def images_ok_def py_get_def
      py_in_def split: json.splits option.splits)

lemma find_named_wf:
  "list_all wf_storage sl \<Longrightarrow>
   find_named nm sl =
     Inr (case find (\<lambda>s. storage_name s = Some nm \<and> images_ok s) sl of
            Some s \<Rightarrow> JStr nm | None \<Rightarrow> JNull)"
proof (induction sl)
  case Nil
  then show ?case by simp
next
  case (Cons s sl)
  then obtain a where a: "storage_name s = Some a" "py_getitem s (U ''storage'') = Inr (JStr a)"
    using wf_storage_getitem by auto
  from Cons have sup: "supports_images s = Inr (images_ok s)"
    by (simp add: wf_storage_supports)
  from Cons have ih: "find_named nm sl =
     Inr (case find (\<lambda>s. storage_name s = Some nm \<and> images_ok s) sl of
            Some s \<Rightarrow> JStr nm | None \<Rightarrow> JNull)"
    by simp
  show ?case
    using a sup ih by simp
qed

lemma find_any_wf:
  "list_all wf_storage sl \<Longrightarrow>
   find_any sl =
     Inr (case find images_ok sl of
            Some s \<Rightarrow> (case storage_name s of Some nm \<Rightarrow> JStr nm | None \<Rightarrow> JNull)
          | None \<Rightarrow> JNull)"
proof (induction sl)
  case Nil
  then show ?case by simp
next
  case (Cons s sl)
  then obtain a where a: "storage_name s = Some a" "py_getitem s (U ''storage'') = Inr (JStr a)"
    using wf_storage_getitem by auto
  from Cons have sup: "supports_images s = Inr (images_ok s)"
    by (simp add: wf_storage_supports)
  from Cons have ih: "find_any sl =
     Inr (case find images_ok sl of
            Some s \<Rightarrow> (case storage_name s of Some nm \<Rightarrow> JStr nm | None \<Rightarrow> JNull)
          | None \<Rightarrow> JNull)"
    by simp
  show ?case
    using a sup ih by simp
qed

lemma find_wf_name:
  "list_all wf_storage sl \<Longrightarrow> find P sl = Some s \<Longrightarrow> \<exists>nm. storage_name s = Some nm"
  by (induction sl) (auto simp: wf_storage_def split: if_splits)

lemma auto_detect_storage_spec:
  assumes "list_all wf_storage sl"
  shows "auto_detect_storage sl =
     (case spec_storage_choice sl of
        Some nm \<Rightarrow> Inr (JStr nm)
      | None \<Rightarrow> Inl (Exc ValueError (U ''No suitable storage found for VM images'')))"
proof -
  note fn = find_named_wf [OF assms] and fa = find_any_wf [OF assms]
  show ?thesis
  proof (cases "find (\<lambda>s. storage_name s = Some (U ''local-lvm'') \<and> images_ok s) sl")
    case (Some s)
    then have "storage_name s = Some (U ''local-lvm'')"
      by (auto dest: find_Some_iff [THEN iffD1])
    with Some show ?thesis
      by (simp add: auto_detect_storage_def spec_storage_choice_def fn)
  next
    case n1: None
    show ?thesis
    proof (cases "find (\<lambda>s. storage_name s = Some (U ''vm-storage'') \<and> images_ok s) sl")
      case (Some s)
      then have "storage_name s = Some (U ''vm-storage'')"
        by (auto dest: find_Some_iff [THEN iffD1])
      with Some n1 show ?thesis
        by (simp add: auto_detect_storage_def spec_storage_choice_def fn)
    next
      case n2: None
      show ?thesis
      proof (cases "find images_ok sl")
        case None
        with n1 n2 show ?thesis
          by (simp add: auto_detect_storage_def spec_storage_choice_def fn fa)
      next
        case (Some s)
        then obtain nm where "storage_name s = Some nm"
          using find_wf_name [OF assms] by blast
        with Some n1 n2 show ?thesis
          by (simp add: auto_detect_storage_def spec_storage_choice_def fn fa)
      qed
    qed
  qed
qed
lemma key_eq_JStr: "key_eq x (JStr a) = (x = JStr a)" "key_eq (JStr a) x = (x = JStr a)"
  by (auto simp: key_eq_def split: json.splits)

lemma info_get_set_str:
  "info_get (info_set (JStr a) v d) (JStr b) = (if a = b then Some v else info_get d (JStr b))"
  by (induction d) (auto simp: key_eq_JStr)

lemma build_storage_info_wf:
  "list_all wf_storage sl \<Longrightarrow> \<exists>info'. build_storage_info sl info = Inr info'"
proof (induction sl arbitrary: info)
  case Nil
  then show ?case by simp
next
  case (Cons s sl)
  from Cons.prems have "wf_storage s" by simp
  then obtain a where a: "py_getitem s (U ''storage'') = Inr (JStr a)"
    using wf_storage_getitem by blast
  from Cons obtain info' where "build_storage_info sl (info_set (JStr a) s info) = Inr info'"
    by auto
  with a show ?case by (simp add: hashable_def)
qed

lemma build_storage_info_lookup:
  "list_all wf_storage sl \<Longrightarrow> distinct (map storage_name sl) \<Longrightarrow>
   build_storage_info sl info = Inr info' \<Longrightarrow>
   info_get info' (JStr nm) =
     (case find (\<lambda>s. storage_name s = Some nm) sl of Some s \<Rightarrow> Some s | None \<Rightarrow> info_get info (JStr nm))"
proof (induction sl arbitrary: info)
  case Nil
  then show ?case by simp
next
  case (Cons s sl)
  from Cons.prems(1) have "wf_storage s" by simp
  then obtain a where a: "storage_name s = Some a" "py_getitem s (U ''storage'') = Inr (JStr a)"
    using wf_storage_getitem by blast
  from Cons.prems a have b: "build_storage_info sl (info_set (JStr a) s info) = Inr info'"
    by (simp add: hashable_def)
  from Cons.prems have "list_all wf_storage sl" "distinct (map storage_name sl)"
    by simp_all
  from Cons.IH [OF this b]
  have ih: "info_get info' (JStr nm) =
     (case find (\<lambda>s. storage_name s = Some nm) sl of
        Some s \<Rightarrow> Some s | None \<Rightarrow> info_get (info_set (JStr a) s info) (JStr nm))" .
  show ?case
  proof (cases "a = nm")
    case True
    from Cons.prems(2) a have "Some nm \<notin> storage_name ` set sl"
      using True by simp
    then have "\<not> (\<exists>x. x \<in> set sl \<and> storage_name x = Some nm)"
      by (metis image_eqI)
    then have "find (\<lambda>s. storage_name s = Some nm) sl = None"
      by (simp add: find_None_iff)
    with ih True a show ?thesis by (simp add: info_get_set_str)
  next
    case False
    with ih a show ?thesis by (simp add: info_get_set_str split: option.splits)
  qed
qed

lemma find_SomeD: "find P xs = Some x \<Longrightarrow> x \<in> set xs \<and> P x"
  by (induction xs) (auto split: if_splits)

lemma spec_storage_choice_entry:
  assumes "spec_storage_choice sl = Some nm"
  shows "\<exists>s\<in>set sl. storage_name s = Some nm \<and> images_ok s"
proof (cases "find (\<lambda>s. storage_name s = Some (U ''local-lvm'') \<and> images_ok s) sl")
  case (Some s)
  with assms have "storage_name s = Some nm"
    by (simp add: spec_storage_choice_def)
  with find_SomeD [OF Some] show ?thesis by blast
next
  case n1: None
  show ?thesis
  proof (cases "find (\<lambda>s. storage_name s = Some (U ''vm-storage'') \<and> images_ok s) sl")
    case (Some s)
    with assms n1 have "storage_name s = Some nm"
      by (simp add: spec_storage_choice_def)
    with find_SomeD [OF Some] show ?thesis by blast
  next
    case n2: None
    show ?thesis
    proof (cases "find images_ok sl")
      case None
      with assms n1 n2 show ?thesis
        by (simp add: spec_storage_choice_def)
    next
      case (Some s)
      with assms n1 n2 have "storage_name s = Some nm"
        by (simp add: spec_storage_choice_def)
      with find_SomeD [OF Some] show ?thesis by blast
    qed
  qed
qed

lemma find_unique:
  assumes "distinct (map f xs)" and "x \<in> set xs" and "f x = k"
  shows "find (\<lambda>y. f y = k) xs = Some x"
  using assms
proof (induction xs)
  case Nil
  then show ?case by simp
next
  case (Cons y ys)
  then show ?case by (auto simp: image_iff)
qed

lemma plan_storage_none:
  assumes "list_all wf_storage sl" and "spec_storage_choice sl = None"
  shows "plan_storage env node JNull (JList sl) =
           Inl (Exc ValueError (U ''No suitable storage found for VM images''))"
proof -
  obtain info' where "build_storage_info sl [] = Inr info'"
    using build_storage_info_wf [OF assms(1)] by blast
  then show ?thesis
    using assms(2) auto_detect_storage_spec [OF assms(1)]
    by (simp add: plan_storage_def py_iter_def)
qed

lemma plan_storage_some:
  assumes "list_all wf_storage sl" and "distinct (map storage_name sl)"
    and "spec_storage_choice sl = Some nm"
    and "find (\<lambda>s. storage_name s = Some nm) sl = Some s"
    and "py_getitem s (U ''type'') = Inr ty"
  shows "plan_storage env node JNull (JList sl) = Inr (JStr nm, ty)"
proof -
  obtain info' where i: "build_storage_info sl [] = Inr info'"
    using build_storage_info_wf [OF assms(1)] by blast
  have l: "info_get info' (JStr nm) = Some s"
    using build_storage_info_lookup [OF assms(1,2) i, of nm] assms(4) by simp
  obtain s' where s': "s' \<in> set sl" "storage_name s' = Some nm" "images_ok s'"
    using spec_storage_choice_entry [OF assms(3)] by blast
  have "find (\<lambda>y. storage_name y = Some nm) sl = Some s'"
    using find_unique [OF assms(2) s'(1,2)] .
  with assms(4) s' have ok: "images_ok s" and mem: "s \<in> set sl" by auto
  from mem assms(1) have "wf_storage s" by (simp add: list_all_iff)
  then have sup: "supports_images s = Inr True"
    using ok by (simp add: wf_storage_supports)
  show ?thesis
    using i l sup assms(5) assms(3) auto_detect_storage_spec [OF assms(1)]
    by (simp add: plan_storage_def py_iter_def)
qed

lemma create_vm_plan_fails:
  assumes "proxmox env tr (config_call node vmid) = Inl e"
    and "str_contains (py_lower env (exc_msg e)) (U ''does not exist'')"
    and "proxmox env (tr @ [config_call node vmid]) (storage_list_call node) = Inr storage_list"
    and "plan_storage env node JNull storage_list = Inl (Exc ValueError msg)"
  shows "create_vm env node vmid name cpus memory disk_size None ostype tr =
           (Raised (Exc ValueError msg), tr @ [config_call node vmid, storage_list_call node])"
  unfolding create_vm_def Let_def request_def
  using assms
  by (simp add: config_call_def storage_list_call_def)

lemma create_vm_plan_succeeds:
  assumes "proxmox env tr (config_call node vmid) = Inl e"
    and "str_contains (py_lower env (exc_msg e)) (U ''does not exist'')"
    and "proxmox env (tr @ [config_call node vmid]) (storage_list_call node) = Inr storage_list"
    and "plan_storage env node JNull storage_list = Inr (st, ty)"
  shows "snd (create_vm env node vmid name cpus memory disk_size None ostype tr) =
           tr @ [config_call node vmid, storage_list_call node,
                 Call POST [Attr (U ''nodes''), Arg (JStr node), Attr (U ''qemu'')]
                   (vm_config env vmid name cpus memory disk_size
                      (case ostype of None \<Rightarrow> U ''l26'' | Some t \<Rightarrow> t) st ty)]"
  unfolding create_vm_def Let_def request_def
  using assms
  by (simp add: config_call_def storage_list_call_def split: sum.splits)

text \<open>
  C8. Take a call of \<open>create_vm\<close> with no storage given that gets past the existence
  check (the configuration read fails with "does not exist") and reads a storage listing
  whose entries carry a string identifier and, if any, a string of content types. The
  auto-detection picks exactly what the priority order picks: \<open>local-lvm\<close> if it supports
  images, else \<open>vm-storage\<close> if it supports images, else the first entry in list order that
  supports images. If no entry supports images, the call raises the \<open>ValueError\<close> "No
  suitable storage found for VM images" after the two reads, with no create request. If an
  entry is picked (identifiers distinct, the entry carrying its type), the create request is
  the third and last request, and its parameters are built on the picked storage.
\<close>

theorem create_vm_storage_priority:
  assumes "proxmox env tr (config_call node vmid) = Inl e"
    and "str_contains (py_lower env (exc_msg e)) (U ''does not exist'')"
    and "proxmox env (tr @ [config_call node vmid]) (storage_list_call node) = Inr (JList sl)"
    and "list_all wf_storage sl"
  shows "auto_detect_storage sl =
           (case spec_storage_choice sl of
              Some nm \<Rightarrow> Inr (JStr nm)
            | None \<Rightarrow> Inl (Exc ValueError (U ''No suitable storage found for VM images'')))
       \<and> (spec_storage_choice sl = None \<longrightarrow>
            create_vm env node vmid name cpus memory disk_size None ostype tr =
              (Raised (Exc ValueError (U ''No suitable storage found for VM images'')),
               tr @ [config_call node vmid, storage_list_call node]))
       \<and> (\<forall>nm s ty. spec_storage_choice sl = Some nm \<and> distinct (map storage_name sl)
              \<and> find (\<lambda>s. storage_name s = Some nm) sl = Some s
              \<and> py_getitem s (U ''type'') = Inr ty \<longrightarrow>
            issued tr (snd (create_vm env node vmid name cpus memory disk_size None ostype tr)) =
              [config_call node vmid, storage_list_call node,
               Call POST [Attr (U ''nodes''), Arg (JStr node), Attr (U ''qemu'')]
                 (vm_config env vmid name cpus memory disk_size
                    (case ostype of None \<Rightarrow> U ''l26'' | Some t \<Rightarrow> t) (JStr nm) ty)])"
proof (intro conjI allI impI)
  show "auto_detect_storage sl =
           (case spec_storage_choice sl of
              Some nm \<Rightarrow> Inr (JStr nm)
            | None \<Rightarrow> Inl (Exc ValueError (U ''No suitable storage found for VM images'')))"
    by (rule auto_detect_storage_spec [OF assms(4)])
next
  assume "spec_storage_choice sl = None"
  then have "plan_storage env node JNull (JList sl) =
               Inl (Exc ValueError (U ''No suitable storage found for VM images''))"
    by (rule plan_storage_none [OF assms(4)])
  then show "create_vm env node vmid name cpus memory disk_size None ostype tr =
              (Raised (Exc ValueError (U ''No suitable storage found for VM images'')),
               tr @ [config_call node vmid, storage_list_call node])"
    by (rule create_vm_plan_fails [OF assms(1,2,3)])
next
  fix nm s ty
  assume a: "spec_storage_choice sl = Some nm \<and> distinct (map storage_name sl)
              \<and> find (\<lambda>s. storage_name s = Some nm) sl = Some s
              \<and> py_getitem s (U ''type'') = Inr ty"
  then have "plan_storage env node JNull (JList sl) = Inr (JStr nm, ty)"
    using plan_storage_some [OF assms(4)] by blast
  from create_vm_plan_succeeds [OF assms(1,2,3) this]
  show "issued tr (snd (create_vm env node vmid name cpus memory disk_size None ostype tr)) =
              [config_call node vmid, storage_list_call node,
               Call POST [Attr (U ''nodes''), Arg (JStr node), Attr (U ''qemu'')]
                 (vm_config env vmid name cpus memory disk_size
                    (case ostype of None \<Rightarrow> U ''l26'' | Some t \<Rightarrow> t) (JStr nm) ty)]"
    by (simp add: issued_def)
qed

lemma fresh_node_check:
  "proxmox (sample_env (fresh_node storages)) [] (config_call (U ''pve'') (U ''200'')) = Inl no_such_vm"
  by (simp add: sample_env_def fresh_node_def)

lemma fresh_node_message:
  "str_contains (py_lower (sample_env (fresh_node storages)) (exc_msg no_such_vm)) (U ''does not exist'')"
  by (simp add: sample_env_def no_such_vm_def)

lemma fresh_node_listing:
  "proxmox (sample_env (fresh_node storages)) ([] @ [config_call (U ''pve'') (U ''200'')])
     (storage_list_call (U ''pve'')) = Inr (JList storages)"
  by (simp add: sample_env_def fresh_node_def storage_list_call_def config_call_def qemu_path_def)

lemma node_storages_wf: "list_all wf_storage node_storages"
  by (simp add: node_storages_def wf_storage_def storage_name_def content_of_def)

lemma node_storages_choice: "spec_storage_choice node_storages = Some (U ''vm-storage'')"
  by (simp add: node_storages_def spec_storage_choice_def storage_name_def content_of_def
      images_ok_def)

lemma node_storages_entry:
  "distinct (map storage_name node_storages)
   \<and> find (\<lambda>s. storage_name s = Some (U ''vm-storage'')) node_storages = Some (node_storages ! 2)
   \<and> py_getitem (node_storages ! 2) (U ''type'') = Inr (JStr (U ''lvmthin''))"
  by (simp add: node_storages_def storage_name_def py_getitem_def)

lemma iso_only_wf: "list_all wf_storage [node_storages ! 0]"
  by (simp add: node_storages_def wf_storage_def storage_name_def content_of_def)

lemma iso_only_choice: "spec_storage_choice [node_storages ! 0] = None"
  by (simp add: node_storages_def spec_storage_choice_def storage_name_def content_of_def
      images_ok_def)

theorem create_vm_storage_priority_witness:
  "issued [] (snd (create_vm (sample_env (fresh_node node_storages)) (U ''pve'') (U ''200'') (U ''web2'')
                     2 2048 20 None None [])) =
     [config_call (U ''pve'') (U ''200''), storage_list_call (U ''pve''),
      Call POST [Attr (U ''nodes''), Arg (JStr (U ''pve'')), Attr (U ''qemu'')]
        (vm_config (sample_env (fresh_node node_storages)) (U ''200'') (U ''web2'') 2 2048 20
           (U ''l26'') (JStr (U ''vm-storage'')) (JStr (U ''lvmthin'')))]
   \<and> create_vm (sample_env (fresh_node [node_storages ! 0])) (U ''pve'') (U ''200'') (U ''web2'')
        2 2048 20 None None [] =
       (Raised (Exc ValueError (U ''No suitable storage found for VM images'')),
        [config_call (U ''pve'') (U ''200''), storage_list_call (U ''pve'')])"
proof -
  note some = create_vm_storage_priority
    [OF fresh_node_check fresh_node_message fresh_node_listing node_storages_wf,
     where name = "U ''web2''" and cpus = 2 and memory = 2048 and disk_size = 20 and ostype = None,
     THEN conjunct2, THEN conjunct2, rule_format,
     of "U ''vm-storage''" "node_storages ! 2" "JStr (U ''lvmthin'')"]
  note none = create_vm_storage_priority
    [OF fresh_node_check fresh_node_message fresh_node_listing iso_only_wf,
     where name = "U ''web2''" and cpus = 2 and memory = 2048 and disk_size = 20 and ostype = None,
     THEN conjunct2, THEN conjunct1, rule_format, OF iso_only_choice]
  have 1: "issued [] (snd (create_vm (sample_env (fresh_node node_storages)) (U ''pve'') (U ''200'') (U ''web2'')
                     2 2048 20 None None [])) =
     [config_call (U ''pve'') (U ''200''), storage_list_call (U ''pve''),
      Call POST [Attr (U ''nodes''), Arg (JStr (U ''pve'')), Attr (U ''qemu'')]
        (vm_config (sample_env (fresh_node node_storages)) (U ''200'') (U ''web2'') 2 2048 20
           (case None of None \<Rightarrow> U ''l26'' | Some t \<Rightarrow> t) (JStr (U ''vm-storage'')) (JStr (U ''lvmthin'')))]"
    using node_storages_choice node_storages_entry by (intro some) blast
  have 2: "create_vm (sample_env (fresh_node [node_storages ! 0])) (U ''pve'') (U ''200'') (U ''web2'')
        2 2048 20 None None [] =
       (Raised (Exc ValueError (U ''No suitable storage found for VM images'')),
        [] @ [config_call (U ''pve'') (U ''200''), storage_list_call (U ''pve'')])"
    by (rule none)
  from 1 2 show ?thesis
    by (simp only: option.case append_Nil simp_thms)
qed

subsection \<open>Decoding what the serialiser writes\<close>

lemma hexval_hexdigit: "d < 16 \<Longrightarrow> hexval (hexdigit d) = Some d"
  by (simp add: hexval_def hexdigit_def)

lemma hex4_value:
  assumes "n < 65536"
  shows "((n div 4096 mod 16 * 16 + n div 256 mod 16) * 16 + n div 16 mod 16) * 16 + n mod 16 = (n::nat)"
proof -
  define a where "a = n div 16"
  define b where "b = a div 16"
  define c where "c = b div 16"
  have d256: "n div 256 = b"
    unfolding b_def a_def by (simp add: div_mult2_eq [symmetric])
  have d4096: "n div 4096 = c"
    unfolding c_def b_def a_def by (simp add: div_mult2_eq [symmetric])
  have c16: "c mod 16 = c"
    using assms unfolding d4096 [symmetric] by (simp add: div_less_iff_less_mult)
  have n': "a * 16 + n mod 16 = n" unfolding a_def by simp
  have a': "b * 16 + a mod 16 = a" unfolding b_def by simp
  have b': "c * 16 + b mod 16 = b" unfolding c_def by simp
  have "((n div 4096 mod 16 * 16 + n div 256 mod 16) * 16 + n div 16 mod 16) * 16 + n mod 16
      = ((c * 16 + b mod 16) * 16 + a mod 16) * 16 + n mod 16"
    unfolding d256 d4096 c16 a_def ..
  also have "\<dots> = (b * 16 + a mod 16) * 16 + n mod 16"
    unfolding b' ..
  also have "\<dots> = a * 16 + n mod 16"
    unfolding a' ..
  also have "\<dots> = n"
    by (rule n')
  finally show ?thesis .
qed

lemma parse_hex4_hex4:
  assumes "n < 65536"
  shows "parse_hex4 (hex4 n @ r) = Some (n, r)"
proof -
  have "parse_hex4 (hex4 n @ r)
        = Some (((n div 4096 mod 16 * 16 + n div 256 mod 16) * 16 + n div 16 mod 16) * 16 + n mod 16, r)"
    by (simp add: parse_hex4_def hex4_def hexval_hexdigit del: mult_Suc_right)
  then show ?thesis
    by (simp only: hex4_value [OF assms])
qed

lemma scan_unicode_escape_single:
  assumes "n < 65536" and "\<not> (is_high_surrogate n \<and> low_escape_follows rest)"
  shows "scan_unicode_escape (hex4 n @ rest) = Some (n, rest)"
  using assms(2)
  by (auto simp: scan_unicode_escape_def parse_hex4_hex4 [OF assms(1)] low_escape_follows_def
      split: option.splits)

lemma surrogate_pair_value:
  assumes "65536 \<le> c" and "c < 1114112"
  shows "55296 + (c - 65536) div 1024 mod 1024 < 65536"
    and "56320 + (c - 65536) mod 1024 < 65536"
    and "is_high_surrogate (55296 + (c - 65536) div 1024 mod 1024)"
    and "is_low_surrogate (56320 + (c - 65536) mod 1024)"
    and "65536 + ((55296 + (c - 65536) div 1024 mod 1024 - 55296) * 1024
                 + (56320 + (c - 65536) mod 1024 - 56320)) = c"
proof -
  define v where "v = c - 65536"
  have v: "v < 1048576" "c = 65536 + v" using assms by (simp_all add: v_def)
  have d: "v div 1024 < 1024" using v(1) by (simp add: div_less_iff_less_mult)
  then have dm: "v div 1024 mod 1024 = v div 1024" by simp
  have m: "v mod 1024 < 1024" by simp
  show "55296 + (c - 65536) div 1024 mod 1024 < 65536"
    unfolding v_def [symmetric] dm using d by simp
  show "56320 + (c - 65536) mod 1024 < 65536"
    unfolding v_def [symmetric] using m by simp
  show "is_high_surrogate (55296 + (c - 65536) div 1024 mod 1024)"
    unfolding v_def [symmetric] dm is_high_surrogate_def using d by simp
  show "is_low_surrogate (56320 + (c - 65536) mod 1024)"
    unfolding v_def [symmetric] is_low_surrogate_def using m by simp
  have "v div 1024 * 1024 + v mod 1024 = v" by simp
  then show "65536 + ((55296 + (c - 65536) div 1024 mod 1024 - 55296) * 1024
                 + (56320 + (c - 65536) mod 1024 - 56320)) = c"
    unfolding v_def [symmetric] dm using v(2) by simp
qed

lemma scan_unicode_escape_pair:
  assumes "65536 \<le> c" and "c < 1114112"
  shows "scan_unicode_escape (hex4 (55296 + (c - 65536) div 1024 mod 1024) @
                              u_escape (56320 + (c - 65536) mod 1024) @ rest) = Some (c, rest)"
proof -
  define hi where "hi = 55296 + (c - 65536) div 1024 mod 1024"
  define lo where "lo = 56320 + (c - 65536) mod 1024"
  note p = surrogate_pair_value [OF assms, folded hi_def lo_def]
  have 1: "parse_hex4 (hex4 hi @ u_escape lo @ rest) = Some (hi, u_escape lo @ rest)"
    by (rule parse_hex4_hex4 [OF p(1)])
  have 2: "parse_hex4 (drop 2 (u_escape lo @ rest)) = Some (lo, rest)"
    by (simp add: u_escape_def parse_hex4_hex4 [OF p(2)])
  have 3: "startswith (u_escape lo @ rest) [92, 117]"
    by (simp add: u_escape_def)
  show ?thesis
    unfolding hi_def [symmetric] lo_def [symmetric] scan_unicode_escape_def
    by (simp add: 1 2 3 p(3) p(4) p(5) del: drop_append)
qed

lemma next_char_plain:
  "32 \<le> c \<Longrightarrow> c \<noteq> 34 \<Longrightarrow> c \<noteq> 92 \<Longrightarrow> next_char (c # rest) = Some (Some c, rest)"
  by (simp add: next_char_def)

lemma next_char_u_escape:
  assumes "n < 65536" and "\<not> (is_high_surrogate n \<and> low_escape_follows rest)"
  shows "next_char (u_escape n @ rest) = Some (Some n, rest)"
  by (simp add: next_char_def u_escape_def scan_unicode_escape_single [OF assms])

lemma next_char_pair:
  assumes "65536 \<le> c" and "c < 1114112"
  shows "next_char (u_escape (55296 + (c - 65536) div 1024 mod 1024) @
                    u_escape (56320 + (c - 65536) mod 1024) @ rest) = Some (Some c, rest)"
proof -
  have "next_char (92 # 117 # hex4 (55296 + (c - 65536) div 1024 mod 1024) @
                    u_escape (56320 + (c - 65536) mod 1024) @ rest) = Some (Some c, rest)"
    unfolding next_char_def
    by (simp add: scan_unicode_escape_pair [OF assms])
  then show ?thesis by (simp add: u_escape_def)
qed

lemma next_char_escape:
  assumes "c < 1114112" and "\<not> (is_high_surrogate c \<and> low_escape_follows rest)"
  shows "next_char (escape_char c @ rest) = Some (Some c, rest)"
proof -
  consider (special) "c = 34 \<or> c = 92 \<or> c = 10 \<or> c = 13 \<or> c = 9 \<or> c = 12 \<or> c = 8"
    | (plain) "32 \<le> c" "c \<le> 126" "c \<noteq> 34" "c \<noteq> 92"
    | (bmp) "c < 65536" "\<not> (32 \<le> c \<and> c \<le> 126)" "c \<noteq> 10" "c \<noteq> 13" "c \<noteq> 9" "c \<noteq> 12" "c \<noteq> 8"
    | (astral) "65536 \<le> c"
    by linarith
  then show ?thesis
  proof cases
    case special
    then show ?thesis
      by (auto simp: escape_char_def next_char_def unescape_def)
  next
    case plain
    then have "escape_char c = [c]" by (simp add: escape_char_def)
    with plain show ?thesis by (simp add: next_char_plain)
  next
    case bmp
    then have "escape_char c = u_escape c" by (auto simp: escape_char_def)
    with bmp(1) assms(2) show ?thesis by (simp add: next_char_u_escape)
  next
    case astral
    then have "escape_char c = u_escape (55296 + (c - 65536) div 1024 mod 1024) @
                               u_escape (56320 + (c - 65536) mod 1024)"
      by (simp add: escape_char_def)
    with next_char_pair [OF astral assms(1), of rest] show ?thesis by simp
  qed
qed

lemma no_low_escape_at_end: "\<not> low_escape_follows (34 # r)"
  by (simp add: low_escape_follows_def)

lemma no_low_escape_at_char:
  assumes "d < 1114112" and "\<not> is_low_surrogate d"
  shows "\<not> low_escape_follows (escape_char d @ rest)"
proof -
  consider (special) "d = 34 \<or> d = 92 \<or> d = 10 \<or> d = 13 \<or> d = 9 \<or> d = 12 \<or> d = 8"
    | (plain) "32 \<le> d" "d \<le> 126" "d \<noteq> 34" "d \<noteq> 92"
    | (bmp) "d < 65536" "\<not> (32 \<le> d \<and> d \<le> 126)" "d \<noteq> 10" "d \<noteq> 13" "d \<noteq> 9" "d \<noteq> 12" "d \<noteq> 8"
    | (astral) "65536 \<le> d"
    by linarith
  then show ?thesis
  proof cases
    case special
    then show ?thesis
      by (auto simp: escape_char_def low_escape_follows_def)
  next
    case plain
    then have "escape_char d = [d]" by (simp add: escape_char_def)
    with plain show ?thesis by (simp add: low_escape_follows_def)
  next
    case bmp
    then have "escape_char d = u_escape d" by (auto simp: escape_char_def)
    with bmp(1) assms(2) show ?thesis
      by (simp add: low_escape_follows_def u_escape_def parse_hex4_hex4)
  next
    case astral
    note p = surrogate_pair_value [OF astral assms(1)]
    have e: "escape_char d = u_escape (55296 + (d - 65536) div 1024 mod 1024) @
                               u_escape (56320 + (d - 65536) mod 1024)"
      using astral by (simp add: escape_char_def)
    have nl: "\<not> is_low_surrogate (55296 + (d - 65536) div 1024 mod 1024)"
      using p(3) by (simp add: is_high_surrogate_def is_low_surrogate_def)
    have "parse_hex4 (hex4 (55296 + (d - 65536) div 1024 mod 1024) @
                      u_escape (56320 + (d - 65536) mod 1024) @ rest)
          = Some (55296 + (d - 65536) div 1024 mod 1024, u_escape (56320 + (d - 65536) mod 1024) @ rest)"
      by (rule parse_hex4_hex4 [OF p(1)])
    with nl show ?thesis
      unfolding e low_escape_follows_def u_escape_def
      by (simp del: drop_append)
  qed
qed

lemma scan_string_body:
  "wf_str s \<Longrightarrow> length s < n \<Longrightarrow>
   scan_string n (concat (map escape_char s) @ 34 # r) = Some (s, r)"
proof (induction s arbitrary: n rule: wf_str.induct)
  case 1
  then obtain m where "n = Suc m" by (cases n) auto
  then show ?case by (simp add: next_char_def)
next
  case (2 c)
  then obtain m where n: "n = Suc m" "0 < m" by (cases n) auto
  then obtain k where m: "m = Suc k" by (cases m) auto
  from 2 have c: "c < 1114112" by simp
  have "next_char (escape_char c @ 34 # r) = Some (Some c, 34 # r)"
    by (rule next_char_escape [OF c]) (simp add: no_low_escape_at_end)
  then show ?case
    using n m by (simp add: next_char_def)
next
  case (3 c d cs)
  then obtain m where n: "n = Suc m" "length (d # cs) < m" by (cases n) auto
  from "3.prems" have c: "c < 1114112" and pair: "\<not> (is_high_surrogate c \<and> is_low_surrogate d)"
    and wf: "wf_str (d # cs)" by simp_all
  from wf have d: "d < 1114112" by (cases cs) simp_all
  let ?rest = "concat (map escape_char (d # cs)) @ 34 # r"
  have "\<not> (is_high_surrogate c \<and> low_escape_follows ?rest)"
    using pair no_low_escape_at_char [OF d, of "concat (map escape_char cs) @ 34 # r"]
    by auto
  then have nc: "next_char (escape_char c @ ?rest) = Some (Some c, ?rest)"
    by (rule next_char_escape [OF c])
  have ih: "scan_string m ?rest = Some (d # cs, r)"
    by (rule "3.IH" [OF wf n(2)])
  show ?case
    unfolding n(1) using nc ih by simp
qed

lemma dec_nat_digits: "list_all is_digit (dec_nat n)"
proof (induction n rule: dec_nat.induct)
  case (1 n)
  show ?case
  proof (cases "n < 10")
    case True
    then show ?thesis by (subst dec_nat.simps) (simp add: is_digit_def)
  next
    case False
    have "n mod 10 < 10" by simp
    then have "is_digit (48 + n mod 10)" unfolding is_digit_def by linarith
    with False 1 show ?thesis by (subst dec_nat.simps) simp
  qed
qed

lemma dec_nat_leading:
  "\<exists>d ds. dec_nat n = d # ds \<and> is_digit d \<and> (d = 48 \<longrightarrow> n = 0 \<and> ds = [])"
proof (induction n rule: dec_nat.induct)
  case (1 n)
  show ?case
  proof (cases "n < 10")
    case True
    then show ?thesis by (subst dec_nat.simps) (simp add: is_digit_def)
  next
    case False
    with 1 obtain d ds where d: "dec_nat (n div 10) = d # ds" "is_digit d"
      "d = 48 \<longrightarrow> n div 10 = 0 \<and> ds = []"
      by blast
    from False have "n div 10 \<noteq> 0" by simp
    with d(3) have "d \<noteq> 48" by blast
    with d(1,2) False show ?thesis by (subst dec_nat.simps) simp
  qed
qed

lemma digits_val_dec_nat: "digits_val (dec_nat n) = n"
proof (induction n rule: dec_nat.induct)
  case (1 n)
  show ?case
  proof (cases "n < 10")
    case True
    then show ?thesis by (subst dec_nat.simps) (simp add: digits_val_def)
  next
    case False
    with 1 have ih: "foldl (\<lambda>a c. a * 10 + (c - 48)) 0 (dec_nat (n div 10)) = n div 10"
      by (simp add: digits_val_def)
    from False show ?thesis
      by (subst dec_nat.simps) (simp add: digits_val_def ih)
  qed
qed

lemma takeWhile_digits:
  assumes "list_all is_digit ds" and "r = [] \<or> \<not> is_digit (hd r)"
  shows "takeWhile is_digit (ds @ r) = ds" and "dropWhile is_digit (ds @ r) = r"
proof -
  from assms(2) have t: "takeWhile is_digit r = []" and d: "dropWhile is_digit r = r"
    by (cases r; simp)+
  from assms(1) have a: "\<forall>x\<in>set ds. is_digit x" by (simp add: list_all_iff)
  show "takeWhile is_digit (ds @ r) = ds"
    using a t by (simp add: takeWhile_append2)
  show "dropWhile is_digit (ds @ r) = r"
    using a d by (simp add: dropWhile_append2)
qed

lemma parse_int_part_dec_nat:
  assumes "r = [] \<or> \<not> is_digit (hd r)"
  shows "parse_int_part (dec_nat n @ r) = Some (n, r)"
proof -
  obtain d ds where d: "dec_nat n = d # ds" "is_digit d" "d = 48 \<longrightarrow> n = 0 \<and> ds = []"
    using dec_nat_leading by blast
  show ?thesis
  proof (cases "d = 48")
    case True
    with d show ?thesis by (simp add: parse_int_part_def)
  next
    case False
    have "parse_int_part (dec_nat n @ r) =
            Some (digits_val (takeWhile is_digit (dec_nat n @ r)), dropWhile is_digit (dec_nat n @ r))"
      using d(1,2) False by (simp add: parse_int_part_def)
    then show ?thesis
      by (simp add: takeWhile_digits [OF dec_nat_digits assms] digits_val_dec_nat)
  qed
qed

lemma delim_next_not_number:
  assumes "delim_next r"
  shows "r = [] \<or> \<not> is_digit (hd r)"
    and "\<not> startswith r [46]" and "\<not> startswith r [101]" and "\<not> startswith r [69]"
  using assms by (cases r; auto simp: delim_next_def is_digit_def)+

lemma parse_number_dec_int:
  assumes "delim_next r"
  shows "parse_number (dec_int i @ r) = Some (JInt i, r)"
proof -
  note nn = delim_next_not_number [OF assms]
  show ?thesis
  proof (cases "i < 0")
    case True
    have "parse_int_part (dec_nat (nat (- i)) @ r) = Some (nat (- i), r)"
      by (rule parse_int_part_dec_nat [OF nn(1)])
    with True nn show ?thesis
      by (simp add: parse_number_def dec_int_def)
  next
    case False
    obtain d ds where d: "dec_nat (nat i) = d # ds" "is_digit d"
      using dec_nat_leading by blast
    then have neg: "\<not> startswith (dec_nat (nat i) @ r) [45]"
      by (simp add: is_digit_def)
    have "parse_int_part (dec_nat (nat i) @ r) = Some (nat i, r)"
      by (rule parse_int_part_dec_nat [OF nn(1)])
    with False nn neg show ?thesis
      by (simp add: parse_number_def dec_int_def)
  qed
qed

lemma dec_int_first: "\<exists>d ds. dec_int i = d # ds \<and> (d = 45 \<or> is_digit d)"
proof -
  obtain d ds where "dec_nat (nat (if i < 0 then - i else i)) = d # ds" "is_digit d"
    using dec_nat_leading by blast
  then show ?thesis by (auto simp: dec_int_def)
qed

lemma value_start_facts:
  assumes "value_start c"
  shows "\<not> is_ws c" and "c \<noteq> 93" and "c \<noteq> 125" and "c \<noteq> 44"
  using assms by (auto simp: value_start_def is_ws_def is_digit_def)

lemma skip_ws_start: "\<not> is_ws c \<Longrightarrow> skip_ws (c # s) = c # s"
  by (simp add: skip_ws_def)

lemma skip_ws_space: "skip_ws (32 # s) = skip_ws s"
  by (simp add: skip_ws_def is_ws_def)

lemma json_dumps_first: "\<exists>c cs. json_dumps v = c # cs \<and> value_start c"
proof (cases v)
  case (JInt i)
  obtain d ds where "dec_int i = d # ds" "d = 45 \<or> is_digit d"
    using dec_int_first by blast
  with JInt show ?thesis by (auto simp: value_start_def)
qed (auto simp: value_start_def dumps_str_def)

lemma dumps_list_first: "xs \<noteq> [] \<Longrightarrow> \<exists>c cs. dumps_list xs = c # cs \<and> value_start c"
proof (cases xs)
  case Nil
  assume "xs \<noteq> []"
  with Nil show ?thesis by simp
next
  case (Cons x ys)
  obtain c cs where "json_dumps x = c # cs" "value_start c"
    using json_dumps_first by blast
  with Cons show ?thesis by simp
qed

lemma dumps_members_first: "kvs \<noteq> [] \<Longrightarrow> \<exists>cs. dumps_members kvs = 34 # cs"
  by (cases kvs) (auto simp: dumps_str_def)

lemma escape_char_nonempty: "escape_char c \<noteq> []"
  by (simp add: escape_char_def u_escape_def)

lemma length_escaped: "length s \<le> length (concat (map escape_char s))"
proof (induction s)
  case Nil
  then show ?case by simp
next
  case (Cons c s)
  obtain e es where "escape_char c = e # es"
    using escape_char_nonempty [of c] by (cases "escape_char c") simp_all
  with Cons show ?case by simp
qed

lemma dict_set_fresh: "k \<notin> fst ` set d \<Longrightarrow> dict_set k v d = d @ [(k, v)]"
  by (induction d) auto

lemma dict_merge_distinct: "distinct (map fst (a @ b)) \<Longrightarrow> dict_merge a b = a @ b"
proof (induction b arbitrary: a)
  case Nil
  then show ?case by (simp add: dict_merge_def)
next
  case (Cons kv b)
  from Cons.prems have f: "fst kv \<notin> fst ` set a" by auto
  from Cons.prems have "distinct (map fst ((a @ [kv]) @ b))" by auto
  from Cons.IH [OF this] have "dict_merge (a @ [kv]) b = (a @ [kv]) @ b" .
  then show ?case
    using dict_set_fresh [OF f, of "snd kv"] by (simp add: dict_merge_def)
qed

lemma dict_of_pairs_distinct: "distinct (map fst kvs) \<Longrightarrow> dict_of_pairs kvs = kvs"
  using dict_merge_distinct [of "[]" kvs] by (simp add: dict_of_pairs_def)

lemma parse_string_token:
  assumes "wf_str s"
  shows "scan_string (length (dumps_str s @ r)) (drop 1 (dumps_str s @ r)) = Some (s, r)"
proof -
  have "length s < length (dumps_str s @ r)"
    using length_escaped [of s] by (simp add: dumps_str_def)
  from scan_string_body [OF assms this, of r] show ?thesis
    by (simp add: dumps_str_def)
qed

lemma parse_value_null: "parse_value (Suc m) (U ''null'' @ r) = Some (JNull, r)"
  by simp

lemma parse_value_bool: "parse_value (Suc m) (json_dumps (JBool b) @ r) = Some (JBool b, r)"
  by simp

lemma parse_value_int:
  assumes "delim_next r"
  shows "parse_value (Suc m) (dec_int i @ r) = Some (JInt i, r)"
proof -
  obtain d ds where d: "dec_int i = d # ds" "d = 45 \<or> is_digit d"
    using dec_int_first by blast
  have t: "\<not> startswith (dec_int i @ r) [34]" "\<not> startswith (dec_int i @ r) [123]"
    "\<not> startswith (dec_int i @ r) [91]" "\<not> startswith (dec_int i @ r) (U ''null'')"
    "\<not> startswith (dec_int i @ r) (U ''true'')" "\<not> startswith (dec_int i @ r) (U ''false'')"
    using d by (auto simp: is_digit_def)
  show ?thesis
    by (subst parse_value.simps(2)) (simp only: t if_False parse_number_dec_int [OF assms])
qed

lemma parse_value_str:
  assumes "wf_str s"
  shows "parse_value (Suc m) (dumps_str s @ r) = Some (JStr s, r)"
proof -
  have st: "startswith (dumps_str s @ r) [34]"
    by (simp add: dumps_str_def)
  show ?thesis
    by (subst parse_value.simps(2))
       (simp only: st if_True parse_string_token [OF assms] option.case prod.case)
qed

lemma skip_ws_list: "xs \<noteq> [] \<Longrightarrow> skip_ws (dumps_list xs @ s) = dumps_list xs @ s"
proof -
  assume "xs \<noteq> []"
  then obtain c cs where "dumps_list xs = c # cs" "value_start c"
    using dumps_list_first by blast
  then show ?thesis
    using value_start_facts(1) by (simp add: skip_ws_start)
qed

lemma skip_ws_members: "kvs \<noteq> [] \<Longrightarrow> skip_ws (dumps_members kvs @ s) = dumps_members kvs @ s"
proof -
  assume "kvs \<noteq> []"
  then obtain cs where "dumps_members kvs = 34 # cs"
    using dumps_members_first by blast
  then show ?thesis
    by (simp add: skip_ws_start is_ws_def)
qed

lemma skip_ws_value: "skip_ws (json_dumps v @ s) = json_dumps v @ s"
proof -
  obtain c cs where "json_dumps v = c # cs" "value_start c"
    using json_dumps_first by blast
  then show ?thesis
    using value_start_facts(1) by (simp add: skip_ws_start)
qed

lemma parse_value_list:
  assumes "xs \<noteq> []" and "parse_elems m (dumps_list xs @ 93 # r) = Some (xs, r)"
  shows "parse_value (Suc m) (json_dumps (JList xs) @ r) = Some (JList xs, r)"
proof -
  obtain c cs where c: "dumps_list xs = c # cs" "value_start c"
    using dumps_list_first [OF assms(1)] by blast
  have n93: "\<not> startswith (dumps_list xs @ 93 # r) [93]"
    using c value_start_facts(2) by simp
  have sk: "skip_ws (dumps_list xs @ 93 # r) = dumps_list xs @ 93 # r"
    by (rule skip_ws_list [OF assms(1)])
  have "parse_value (Suc m) (91 # dumps_list xs @ 93 # r) = Some (JList xs, r)"
    by (subst parse_value.simps(2)) (simp add: sk n93 assms(2))
  then show ?thesis by simp
qed

lemma parse_value_empty_list: "parse_value (Suc m) (json_dumps (JList []) @ r) = Some (JList [], r)"
  by (simp add: skip_ws_def is_ws_def)

lemma parse_value_obj:
  assumes "kvs \<noteq> []" and "distinct (map fst kvs)"
    and "parse_members m (dumps_members kvs @ 125 # r) = Some (kvs, r)"
  shows "parse_value (Suc m) (json_dumps (JObj kvs) @ r) = Some (JObj kvs, r)"
proof -
  obtain cs where c: "dumps_members kvs = 34 # cs"
    using dumps_members_first [OF assms(1)] by blast
  have n125: "\<not> startswith (dumps_members kvs @ 125 # r) [125]"
    using c by simp
  have sk: "skip_ws (dumps_members kvs @ 125 # r) = dumps_members kvs @ 125 # r"
    by (rule skip_ws_members [OF assms(1)])
  have "parse_value (Suc m) (123 # dumps_members kvs @ 125 # r) = Some (JObj kvs, r)"
    by (subst parse_value.simps(2))
       (simp add: sk n125 assms(3) dict_of_pairs_distinct [OF assms(2)])
  then show ?thesis by simp
qed

lemma parse_value_empty_obj: "parse_value (Suc m) (json_dumps (JObj []) @ r) = Some (JObj [], r)"
  by (simp add: skip_ws_def is_ws_def)

lemma parse_elems_last:
  assumes "parse_value m (json_dumps x @ 93 # r) = Some (x, 93 # r)"
  shows "parse_elems (Suc m) (dumps_list [x] @ 93 # r) = Some ([x], r)"
proof -
  have "parse_elems (Suc m) (json_dumps x @ 93 # r) = Some ([x], r)"
    by (subst parse_elems.simps(2)) (simp add: assms skip_ws_def is_ws_def)
  then show ?thesis by simp
qed

lemma parse_elems_more:
  assumes "xs \<noteq> []"
    and "parse_value m (json_dumps x @ 44 # 32 # dumps_list xs @ 93 # r)
           = Some (x, 44 # 32 # dumps_list xs @ 93 # r)"
    and "parse_elems m (dumps_list xs @ 93 # r) = Some (xs, r)"
  shows "parse_elems (Suc m) (dumps_list (x # xs) @ 93 # r) = Some (x # xs, r)"
proof -
  have sk: "skip_ws (44 # 32 # dumps_list xs @ 93 # r) = 44 # 32 # dumps_list xs @ 93 # r"
    by (simp add: skip_ws_start is_ws_def)
  have sk2: "skip_ws (32 # dumps_list xs @ 93 # r) = dumps_list xs @ 93 # r"
    by (simp add: skip_ws_space skip_ws_list [OF assms(1)])
  have "parse_elems (Suc m) (json_dumps x @ 44 # 32 # dumps_list xs @ 93 # r) = Some (x # xs, r)"
    by (subst parse_elems.simps(2)) (simp add: assms(2) sk sk2 assms(3))
  then show ?thesis using assms(1) by simp
qed

lemma parse_members_last:
  assumes "wf_str k"
    and "parse_value m (json_dumps v @ 125 # r) = Some (v, 125 # r)"
  shows "parse_members (Suc m) (dumps_members [(k, v)] @ 125 # r) = Some ([(k, v)], r)"
proof -
  let ?s = "dumps_str k @ 58 # 32 # json_dumps v @ 125 # r"
  have st: "startswith ?s [34]" by (simp add: dumps_str_def)
  have key: "scan_string (length ?s) (drop 1 ?s) = Some (k, 58 # 32 # json_dumps v @ 125 # r)"
    by (rule parse_string_token [OF assms(1)])
  have sk: "skip_ws (58 # 32 # json_dumps v @ 125 # r) = 58 # 32 # json_dumps v @ 125 # r"
    by (simp add: skip_ws_start is_ws_def)
  have sk2: "skip_ws (32 # json_dumps v @ 125 # r) = json_dumps v @ 125 # r"
    by (simp add: skip_ws_space skip_ws_value)
  have sk3: "skip_ws (125 # r) = 125 # r"
    by (simp add: skip_ws_start is_ws_def)
  have "parse_members (Suc m) ?s = Some ([(k, v)], r)"
    by (subst parse_members.simps(2))
       (simp only: st key, simp add: sk sk2 sk3 assms(2))
  then show ?thesis by simp
qed

lemma parse_members_more:
  assumes "wf_str k" and "kvs \<noteq> []"
    and "parse_value m (json_dumps v @ 44 # 32 # dumps_members kvs @ 125 # r)
           = Some (v, 44 # 32 # dumps_members kvs @ 125 # r)"
    and "parse_members m (dumps_members kvs @ 125 # r) = Some (kvs, r)"
  shows "parse_members (Suc m) (dumps_members ((k, v) # kvs) @ 125 # r) = Some ((k, v) # kvs, r)"
proof -
  let ?t = "44 # 32 # dumps_members kvs @ 125 # r"
  let ?s = "dumps_str k @ 58 # 32 # json_dumps v @ ?t"
  have st: "startswith ?s [34]" by (simp add: dumps_str_def)
  have key: "scan_string (length ?s) (drop 1 ?s) = Some (k, 58 # 32 # json_dumps v @ ?t)"
    by (rule parse_string_token [OF assms(1)])
  have sk: "skip_ws (58 # 32 # json_dumps v @ ?t) = 58 # 32 # json_dumps v @ ?t"
    by (simp add: skip_ws_start is_ws_def)
  have sk2: "skip_ws (32 # json_dumps v @ ?t) = json_dumps v @ ?t"
    by (simp add: skip_ws_space skip_ws_value)
  have sk3: "skip_ws ?t = ?t"
    by (simp add: skip_ws_start is_ws_def)
  have sk4: "skip_ws (32 # dumps_members kvs @ 125 # r) = dumps_members kvs @ 125 # r"
    by (simp add: skip_ws_space skip_ws_members [OF assms(2)])
  have "parse_members (Suc m) ?s = Some ((k, v) # kvs, r)"
    by (subst parse_members.simps(2))
       (simp only: st key, simp add: sk sk2 sk3 sk4 assms(3,4))
  then show ?thesis using assms(2) by simp
qed

lemma parse_dumps:
  "wf_json v \<longrightarrow>
     (\<forall>n r. length (json_dumps v) \<le> n \<longrightarrow> delim_next r \<longrightarrow>
            parse_value n (json_dumps v @ r) = Some (v, r))"
  "wf_list xs \<longrightarrow> xs \<noteq> [] \<longrightarrow>
     (\<forall>n r. length (dumps_list xs) < n \<longrightarrow>
            parse_elems n (dumps_list xs @ 93 # r) = Some (xs, r))"
  "wf_members kvs \<longrightarrow> kvs \<noteq> [] \<longrightarrow>
     (\<forall>n r. length (dumps_members kvs) < n \<longrightarrow>
            parse_members n (dumps_members kvs @ 125 # r) = Some (kvs, r))"
proof (induction v and xs and kvs rule: json_dumps_dumps_list_dumps_members.induct)
  case 1
  show ?case
  proof (intro impI allI)
    fix n :: nat and r :: pystr
    assume "length (json_dumps JNull) \<le> n"
    then obtain m where "n = Suc m" by (cases n) auto
    then show "parse_value n (json_dumps JNull @ r) = Some (JNull, r)"
      using parse_value_null [of m r] by simp
  qed
next
  case (2 b)
  show ?case
  proof (intro impI allI)
    fix n :: nat and r :: pystr
    assume "length (json_dumps (JBool b)) \<le> n"
    then obtain m where "n = Suc m" by (cases n; cases b) auto
    then show "parse_value n (json_dumps (JBool b) @ r) = Some (JBool b, r)"
      using parse_value_bool [of m b r] by (simp only:)
  qed
next
  case (3 i)
  show ?case
  proof (intro impI allI)
    fix n :: nat and r :: pystr
    assume l: "length (json_dumps (JInt i)) \<le> n" and d: "delim_next r"
    obtain c cs where "dec_int i = c # cs" using dec_int_first by blast
    with l obtain m where "n = Suc m" by (cases n) auto
    then show "parse_value n (json_dumps (JInt i) @ r) = Some (JInt i, r)"
      using parse_value_int [OF d, of m i] by simp
  qed
next
  case (4 s)
  show ?case
  proof (intro impI allI)
    fix n :: nat and r :: pystr
    assume w: "wf_json (JStr s)" and l: "length (json_dumps (JStr s)) \<le> n"
    from l obtain m where "n = Suc m" by (cases n) (auto simp: dumps_str_def)
    then show "parse_value n (json_dumps (JStr s) @ r) = Some (JStr s, r)"
      using parse_value_str [of s m r] w by simp
  qed
next
  case (5 xs)
  show ?case
  proof (intro impI allI)
    fix n :: nat and r :: pystr
    assume w: "wf_json (JList xs)" and l: "length (json_dumps (JList xs)) \<le> n"
    from l obtain m where n: "n = Suc m" by (cases n) auto
    show "parse_value n (json_dumps (JList xs) @ r) = Some (JList xs, r)"
    proof (cases "xs = []")
      case True
      then show ?thesis unfolding n using parse_value_empty_list [of m r] by (simp only:)
    next
      case False
      from l n have "length (dumps_list xs) < m" by simp
      with 5 w False have "parse_elems m (dumps_list xs @ 93 # r) = Some (xs, r)" by simp
      from parse_value_list [OF False this] show ?thesis unfolding n .
    qed
  qed
next
  case (6 kvs)
  show ?case
  proof (intro impI allI)
    fix n :: nat and r :: pystr
    assume w: "wf_json (JObj kvs)" and l: "length (json_dumps (JObj kvs)) \<le> n"
    from l obtain m where n: "n = Suc m" by (cases n) auto
    from w have dist: "distinct (map fst kvs)" and wm: "wf_members kvs" by simp_all
    show "parse_value n (json_dumps (JObj kvs) @ r) = Some (JObj kvs, r)"
    proof (cases "kvs = []")
      case True
      then show ?thesis unfolding n using parse_value_empty_obj [of m r] by (simp only:)
    next
      case False
      from l n have "length (dumps_members kvs) < m" by simp
      with 6 wm False have "parse_members m (dumps_members kvs @ 125 # r) = Some (kvs, r)" by simp
      from parse_value_obj [OF False dist this] show ?thesis unfolding n .
    qed
  qed
next
  case 7
  show ?case by simp
next
  case (8 x xs)
  show ?case
  proof (intro impI allI)
    fix n :: nat and r :: pystr
    assume w: "wf_list (x # xs)" and l: "length (dumps_list (x # xs)) < n"
    from l obtain m where n: "n = Suc m" by (cases n) auto
    from w have wx: "wf_json x" and wxs: "wf_list xs" by simp_all
    show "parse_elems n (dumps_list (x # xs) @ 93 # r) = Some (x # xs, r)"
    proof (cases "xs = []")
      case True
      from l n True have "length (json_dumps x) \<le> m" by simp
      with "8.IH"(1) wx have "parse_value m (json_dumps x @ 93 # r) = Some (x, 93 # r)"
        by (simp add: delim_next_def)
      from parse_elems_last [OF this] show ?thesis unfolding n True .
    next
      case False
      from l n False have lx: "length (json_dumps x) \<le> m" and lxs: "length (dumps_list xs) < m"
        by simp_all
      from "8.IH"(1) wx lx
      have px: "parse_value m (json_dumps x @ 44 # 32 # dumps_list xs @ 93 # r)
                  = Some (x, 44 # 32 # dumps_list xs @ 93 # r)"
        by (simp add: delim_next_def)
      from "8.IH"(2) [OF False] wxs False lxs
      have pxs: "parse_elems m (dumps_list xs @ 93 # r) = Some (xs, r)"
        by simp
      from parse_elems_more [OF False px pxs] show ?thesis unfolding n .
    qed
  qed
next
  case 9
  show ?case by simp
next
  case (10 k v kvs)
  show ?case
  proof (intro impI allI)
    fix n :: nat and r :: pystr
    assume w: "wf_members ((k, v) # kvs)" and l: "length (dumps_members ((k, v) # kvs)) < n"
    from l obtain m where n: "n = Suc m" by (cases n) auto
    from w have wk: "wf_str k" and wv: "wf_json v" and wkvs: "wf_members kvs" by simp_all
    show "parse_members n (dumps_members ((k, v) # kvs) @ 125 # r) = Some ((k, v) # kvs, r)"
    proof (cases "kvs = []")
      case True
      from l n True have "length (json_dumps v) \<le> m" by simp
      with "10.IH"(1) wv have "parse_value m (json_dumps v @ 125 # r) = Some (v, 125 # r)"
        by (simp add: delim_next_def)
      from parse_members_last [OF wk this] show ?thesis unfolding n True .
    next
      case False
      from l n False have lv: "length (json_dumps v) \<le> m" and lkvs: "length (dumps_members kvs) < m"
        by simp_all
      from "10.IH"(1) wv lv
      have pv: "parse_value m (json_dumps v @ 44 # 32 # dumps_members kvs @ 125 # r)
                  = Some (v, 44 # 32 # dumps_members kvs @ 125 # r)"
        by (simp add: delim_next_def)
      from "10.IH"(2) [OF False] wkvs False lkvs
      have pkvs: "parse_members m (dumps_members kvs @ 125 # r) = Some (kvs, r)"
        by simp
      from parse_members_more [OF wk False pv pkvs] show ?thesis unfolding n .
    qed
  qed
qed

lemma json_loads_dumps: "wf_json v \<Longrightarrow> json_loads (json_dumps v) = Some v"
proof -
  assume w: "wf_json v"
  have sk: "skip_ws (json_dumps v) = json_dumps v"
    using skip_ws_value [of v "[]"] by simp
  have "parse_value (Suc (length (json_dumps v))) (json_dumps v @ []) = Some (v, [])"
    by (rule parse_dumps(1) [rule_format, OF w]) (simp_all add: delim_next_def)
  moreover have "skip_ws [] = []"
    by (simp add: skip_ws_def)
  ultimately show ?thesis
    by (simp add: json_loads_def sk del: parse_value.simps)
qed

subsection \<open>Round trip of read responses\<close>

lemma get_storage_returns:
  "proxmox env tr (Call GET [Attr (U ''storage'')] []) = Inr response \<Longrightarrow>
   fst (get_storage env tr) = Returned [TextContent (json_dumps response)]"
  by (simp add: get_storage_def raw_json_def request_def del: json_dumps.simps)

lemma proxmox_request_get_returns:
  assumes "path \<noteq> []" and "py_upper env m = U ''GET''"
    and "proxmox env tr (Call GET [Arg (JStr (normalize_path path))] (or_empty params)) = Inr response"
  shows "fst (proxmox_request env m path params data tr) = Returned [TextContent (json_dumps response)]"
  unfolding proxmox_request_unfold
  using assms by (simp add: raw_json_def request_def del: json_dumps.simps)

text \<open>
  C9. For every well-formed response of a read (integers, strings, booleans, null, lists and
  dictionaries; floating-point numbers are outside the model), the text block that
  \<open>get_storage\<close> and the generic passthrough with \<open>GET\<close> return is the serialisation of
  that response, and decoding it gives the response back, with every field, in the same
  order.
\<close>

theorem read_response_round_trip:
  assumes "wf_json response"
  shows "(proxmox env tr (Call GET [Attr (U ''storage'')] []) = Inr response \<longrightarrow>
            fst (get_storage env tr) = Returned [TextContent (json_dumps response)])
       \<and> (path \<noteq> [] \<and> py_upper env meth = U ''GET''
            \<and> proxmox env tr (Call GET [Arg (JStr (normalize_path path))] (or_empty params))
                = Inr response \<longrightarrow>
            fst (proxmox_request env meth path params data tr)
              = Returned [TextContent (json_dumps response)])
       \<and> json_loads (json_dumps response) = Some response"
  using json_loads_dumps [OF assms] get_storage_returns proxmox_request_get_returns
  by blast

lemma storage_pools_wf: "wf_json storage_pools"
  by (simp add: storage_pools_def is_high_surrogate_def is_low_surrogate_def)

theorem read_response_round_trip_witness:
  "fst (get_storage (sample_env (always storage_pools)) [])
     = Returned [TextContent (json_dumps storage_pools)]
   \<and> fst (proxmox_request (sample_env (always storage_pools)) (U ''get'') (U ''/api2/json/storage'')
            None None [])
     = Returned [TextContent (json_dumps storage_pools)]
   \<and> json_loads (json_dumps storage_pools) = Some storage_pools"
proof -
  let ?E = "sample_env (always storage_pools)"
  have u: "U ''/api2/json/storage'' \<noteq> [] \<and> py_upper ?E (U ''get'') = U ''GET''"
    by (simp add: sample_env_def)
  note inst = read_response_round_trip [OF storage_pools_wf, where env = ?E and tr = "[]"
      and path = "U ''/api2/json/storage''" and meth = "U ''get''" and params = None and data = None]
  from inst u sample_env_always [of storage_pools] show ?thesis
    by blast
qed

end
